theory Spec2Isabelle
  imports Complex_Main "HOL-Library.Multiset"
begin

section \<open>Data model (main/models.py)\<close>

text \<open>
  Primary keys of users and of every table are the non-negative integers the database
  hands out. A point in time is an integer number of microseconds, the resolution of
  Python's datetime. A writing handler is given one reading of the clock; the dashboard's
  read of the friends' shares is given each of its readings separately.
\<close>

type_synonym user_id = nat
type_synonym time = int

definition timedelta_hours :: "int \<Rightarrow> int" where
  "timedelta_hours h = h * 3600000000"

text \<open>\<open>request.user\<close>: the anonymous user, or a row of the User table.\<close>

datatype viewer = AnonymousUser | User user_id

fun is_authenticated :: "viewer \<Rightarrow> bool" where
  "is_authenticated AnonymousUser = False"
| "is_authenticated (User u) = True"

text \<open>The messages a handler leaves for the next page, with their level.\<close>

datatype message = Success string | Info string | Error string

text \<open>
  A numeric POST field: absent or empty (\<open>Missing\<close>), text that \<open>int()\<close> or
  \<open>float()\<close> rejects (\<open>Malformed\<close>), or the parsed value. A parsed float is a
  finite double, which is a rational number, or one of nan, inf and -inf.
\<close>

datatype 'a field = Missing | Malformed | Parsed 'a

datatype pyfloat = Finite rat | NotFinite

fun float_in_range :: "pyfloat \<Rightarrow> bool" where
  "float_in_range (Finite g) = (1 \<le> g \<and> g \<le> 10)"
| "float_in_range NotFinite = False"

record location =
  location_id :: string
  location_name :: string
  loc_is_active :: bool
  active_users_count :: nat
  current_crowd_level :: string

record friendship =
  friendship_id :: nat
  user1 :: user_id
  user2 :: user_id
  status :: string
  fr_created_at :: time
  accepted_at :: "time option"

record location_share =
  share_id :: nat
  shr_user :: user_id
  shr_location :: string
  shared_at :: time
  expires_at :: time
  is_active :: bool
  shr_visibility :: string
  status_message :: string
  share_type :: string

record memory =
  memory_id :: nat
  mem_user :: user_id
  mem_location :: string
  creation_date :: time
  memory_title :: string
  description :: string
  media_type :: string
  visibility :: string
  is_archived :: bool
  is_featured :: bool
  tags :: "string list"
  year_created :: "int option"
  likes_count :: int
  liked_by_user_ids :: "user_id list"
  view_count :: int
  last_modified :: time

record location_review =
  review_id :: nat
  rev_user :: user_id
  rev_location :: string
  wifi_rating :: int
  cleanliness_rating :: int
  noise_rating :: int
  general_rating :: pyfloat
  rating :: "int option"
  review_text :: string
  review_category :: string
  crowd_level :: string
  rev_created_at :: time
  is_verified :: bool
  helpfulness_score :: int

record event =
  event_id :: nat
  organizer :: user_id
  ev_location :: string
  event_type :: string
  event_title :: string
  event_description :: string
  event_start :: time
  event_end :: time
  max_participants :: int
  current_participants :: int
  participant_user_ids :: "user_id list"
  ev_status :: string
  ev_created_at :: time
  requires_approval :: bool
  is_started :: bool
  started_at :: "time option"
  invited_user_ids :: "user_id list"
  is_public :: bool

record event_activity =
  activity_id :: nat
  act_user :: user_id
  act_event :: nat
  activity_type :: string
  act_created_at :: time
  is_visible :: bool

text \<open>
  The relational store: one list of rows per table, in insertion order, and the next
  value of each table's AutoField. A foreign key is the key of the row it points to.
  The session, the uploaded files and the columns of User and Location that no handler
  below reads are left out.
\<close>

record db =
  users :: "user_id list"
  locations :: "location list"
  friendships :: "friendship list"
  next_friendship_id :: nat
  location_shares :: "location_share list"
  next_share_id :: nat
  reviews :: "location_review list"
  next_review_id :: nat
  events :: "event list"
  next_event_id :: nat
  activities :: "event_activity list"
  next_activity_id :: nat
  memories :: "memory list"

text \<open>
  \<open>Model.objects.get(...)\<close> and \<open>get_object_or_404\<close>: the single row that matches.
  No row (DoesNotExist, Http404) and several rows (MultipleObjectsReturned) both raise;
  every caller below catches the exception, so both are \<open>None\<close>.
\<close>

definition get_object :: "('a \<Rightarrow> bool) \<Rightarrow> 'a list \<Rightarrow> 'a option" where
  "get_object P rows = (case filter P rows of [r] \<Rightarrow> Some r | _ \<Rightarrow> None)"

section \<open>Friendship graph\<close>

text \<open>\<open>FriendshipManager.are_friends\<close>: an accepted row in either order exists.\<close>

definition are_friends :: "db \<Rightarrow> user_id \<Rightarrow> user_id \<Rightarrow> bool" where
  "are_friends d u1 u2 =
     list_ex (\<lambda>f. (user1 f = u1 \<and> user2 f = u2 \<and> status f = ''accepted'') \<or>
                   (user1 f = u2 \<and> user2 f = u1 \<and> status f = ''accepted''))
             (friendships d)"

text \<open>
  \<open>FriendshipManager.get_friends\<close>: the users that received an accepted friendship
  from \<open>user\<close> or initiated one to \<open>user\<close>, without duplicates.
\<close>

definition get_friends :: "db \<Rightarrow> user_id \<Rightarrow> user_id list" where
  "get_friends d user =
     remdups (filter (\<lambda>u.
        list_ex (\<lambda>f. user2 f = u \<and> user1 f = user \<and> status f = ''accepted'') (friendships d) \<or>
        list_ex (\<lambda>f. user1 f = u \<and> user2 f = user \<and> status f = ''accepted'') (friendships d))
       (users d))"

text \<open>\<open>send_friend_request\<close> (POST), \<open>request.user\<close> asking \<open>uid\<close>.\<close>

definition send_friend_request :: "db \<Rightarrow> user_id \<Rightarrow> user_id \<Rightarrow> time \<Rightarrow> db \<times> message list" where
  "send_friend_request d request_user uid now =
     (case get_object (\<lambda>u. u = uid) (users d) of
        None \<Rightarrow> (d, [Error ''Error sending friend request''])
      | Some friend \<Rightarrow>
         (case filter (\<lambda>f. (user1 f = request_user \<and> user2 f = friend) \<or>
                            (user1 f = friend \<and> user2 f = request_user)) (friendships d) of
            existing_friendship # _ \<Rightarrow>
              (if status existing_friendship = ''accepted''
                 then (d, [Info ''You are already friends''])
               else if status existing_friendship = ''pending''
                 then (d, [Info ''Friend request already sent''])
               else (d, [Error ''Cannot send friend request'']))
          | [] \<Rightarrow>
              (d\<lparr>friendships := friendships d @
                    [\<lparr>friendship_id = next_friendship_id d, user1 = request_user,
                      user2 = friend, status = ''pending'', fr_created_at = now,
                      accepted_at = None\<rparr>],
                  next_friendship_id := Suc (next_friendship_id d)\<rparr>,
               [Success ''Friend request sent''])))"

text \<open>\<open>friendship.save()\<close> and \<open>friendship.delete()\<close> on a fetched row: by primary key.\<close>

definition friendship_save :: "friendship \<Rightarrow> db \<Rightarrow> db" where
  "friendship_save f d =
     d\<lparr>friendships := map (\<lambda>r. if friendship_id r = friendship_id f then f else r) (friendships d)\<rparr>"

definition friendship_delete :: "friendship \<Rightarrow> db \<Rightarrow> db" where
  "friendship_delete f d =
     d\<lparr>friendships := filter (\<lambda>r. friendship_id r \<noteq> friendship_id f) (friendships d)\<rparr>"

text \<open>\<open>respond_friend_request\<close> (POST): only the recipient of a pending request responds.\<close>

definition respond_friend_request ::
  "db \<Rightarrow> user_id \<Rightarrow> nat \<Rightarrow> string \<Rightarrow> time \<Rightarrow> db \<times> message list" where
  "respond_friend_request d request_user fid action now =
     (case get_object (\<lambda>f. friendship_id f = fid \<and> user2 f = request_user \<and>
                            status f = ''pending'') (friendships d) of
        None \<Rightarrow> (d, [Error ''Error processing friend request''])
      | Some fr \<Rightarrow>
          if action = ''accept''
            then (friendship_save (fr\<lparr>status := ''accepted'', accepted_at := Some now\<rparr>) d,
                  [Success ''You are now friends''])
          else if action = ''reject''
            then (friendship_delete fr d, [Info ''Friend request declined''])
          else (d, []))"

section \<open>Memories\<close>

text \<open>\<open>Memory.can_view\<close>.\<close>

fun can_view :: "db \<Rightarrow> memory \<Rightarrow> viewer \<Rightarrow> bool" where
  "can_view d m AnonymousUser = (visibility m = ''public'')"
| "can_view d m (User u) =
     (if visibility m = ''public'' then True
      else if visibility m = ''private'' then mem_user m = u
      else if visibility m = ''friends'' then
        (if mem_user m = u then True else are_friends d (mem_user m) u)
      else False)"

text \<open>
  \<open>MemoryManager.get_visible_memories\<close>, then \<open>.filter(is_archived=False)\<close> as
  \<open>memories_feed\<close> applies it. \<open>order_by('-key')\<close> is a sort on the key, largest
  first; the database leaves the order of rows with equal keys open, here the later row
  comes first.
\<close>

definition order_by_desc :: "('a \<Rightarrow> int) \<Rightarrow> 'a list \<Rightarrow> 'a list" where
  "order_by_desc key rows = rev (sort_key key rows)"

definition get_visible_memories :: "db \<Rightarrow> user_id \<Rightarrow> memory list" where
  "get_visible_memories d user =
     (let friends = get_friends d user
      in order_by_desc creation_date
           (filter (\<lambda>m. visibility m = ''public'' \<or>
                         (visibility m = ''friends'' \<and> mem_user m \<in> set friends) \<or>
                         (visibility m = ''friends'' \<and> mem_user m = user) \<or>
                         (visibility m = ''private'' \<and> mem_user m = user))
                   (memories d)))"

definition memories_feed :: "db \<Rightarrow> user_id \<Rightarrow> memory list" where
  "memories_feed d user = filter (\<lambda>m. is_archived m = False) (get_visible_memories d user)"

text \<open>
  \<open>my_memories\<close>, action \<open>archive_memory\<close>. \<open>memory.save(update_fields=['is_archived'])\<close>
  writes that one column of the row with the memory's key; what \<open>Memory.save\<close> assigns
  to \<open>year_created\<close> on the fetched object is not among the written columns, and
  neither is \<open>last_modified\<close>, which Django refreshes only when it is written.
\<close>

definition memory_save_is_archived :: "memory \<Rightarrow> db \<Rightarrow> db" where
  "memory_save_is_archived m d =
     d\<lparr>memories := map (\<lambda>r. if memory_id r = memory_id m
                                then r\<lparr>is_archived := is_archived m\<rparr> else r) (memories d)\<rparr>"

definition archive_memory :: "db \<Rightarrow> user_id \<Rightarrow> nat \<Rightarrow> db \<times> message list" where
  "archive_memory d request_user mid =
     (case get_object (\<lambda>m. memory_id m = mid \<and> mem_user m = request_user) (memories d) of
        None \<Rightarrow> (d, [Error ''Error archiving memory''])
      | Some mem \<Rightarrow>
          (let mem' = mem\<lparr>is_archived := \<not> is_archived mem\<rparr>
           in (memory_save_is_archived mem' d,
               [Success (if is_archived mem' then ''Memory archived'' else ''Memory restored'')])))"

section \<open>Presence ledger (dashboard)\<close>

text \<open>The sweep at the start of every \<open>dashboard\<close> request.\<close>

definition sweep_expired :: "db \<Rightarrow> time \<Rightarrow> db" where
  "sweep_expired d now =
     d\<lparr>location_shares := map (\<lambda>s. if expires_at s \<le> now \<and> is_active s = True
                                      then s\<lparr>is_active := False\<rparr> else s) (location_shares d)\<rparr>"

text \<open>\<open>LocationShare.objects.filter(user=request.user, is_active=True).update(is_active=False)\<close>.\<close>

definition deactivate_shares :: "user_id \<Rightarrow> db \<Rightarrow> db" where
  "deactivate_shares user d =
     d\<lparr>location_shares := map (\<lambda>s. if shr_user s = user \<and> is_active s = True
                                      then s\<lparr>is_active := False\<rparr> else s) (location_shares d)\<rparr>"

text \<open>The live occupant count of a location, written back with \<open>update_fields\<close>.\<close>

definition update_active_users_count :: "string \<Rightarrow> time \<Rightarrow> db \<Rightarrow> db" where
  "update_active_users_count lid now d =
     (let n = length (filter (\<lambda>s. shr_location s = lid \<and> is_active s = True \<and>
                                    expires_at s > now) (location_shares d))
      in d\<lparr>locations := map (\<lambda>l. if location_id l = lid
                                  then l\<lparr>active_users_count := n\<rparr> else l) (locations d)\<rparr>)"

text \<open>
  Action \<open>share_location\<close>. A POST field that is absent and one that is empty are both
  falsy; both are the empty string here.
\<close>

definition share_location :: "db \<Rightarrow> user_id \<Rightarrow> string \<Rightarrow> string \<Rightarrow> time \<Rightarrow> db \<times> message list" where
  "share_location d request_user lid status_msg now =
     (if lid = [] then (d, [])
      else case filter (\<lambda>l. location_id l = lid) (locations d) of
        [] \<Rightarrow> (d, [Error ''Invalid location selected''])
      | [loc] \<Rightarrow>
          (let d1 = deactivate_shares request_user d;
               d2 = d1\<lparr>location_shares := location_shares d1 @
                         [\<lparr>share_id = next_share_id d1, shr_user = request_user,
                           shr_location = location_id loc, shared_at = now,
                           expires_at = now + timedelta_hours 4, is_active = True,
                           shr_visibility = ''all_friends'', status_message = status_msg,
                           share_type = ''check_in''\<rparr>],
                       next_share_id := Suc (next_share_id d1)\<rparr>
           in (update_active_users_count (location_id loc) now d2,
               [Success ''Location shared'']))
      | _ \<Rightarrow> (d, [Error ''Error sharing location'']))"

text \<open>Action \<open>stop_sharing\<close> (the review prompt it leaves in the session is not kept).\<close>

definition stop_sharing :: "db \<Rightarrow> user_id \<Rightarrow> time \<Rightarrow> db \<times> message list" where
  "stop_sharing d request_user now =
     (let current_share =
            order_by_desc shared_at
              (filter (\<lambda>s. shr_user s = request_user \<and> is_active s = True \<and>
                            expires_at s > now) (location_shares d));
          d1 = deactivate_shares request_user d
      in (case current_share of
            [] \<Rightarrow> d1
          | s # _ \<Rightarrow> update_active_users_count (shr_location s) now d1,
          [Success ''Location sharing stopped'']))"

text \<open>
  The friends' shares of the last 24 hours that the dashboard (GET) shows. The query reads
  the clock once for the cutoff and once more for the expiry test.
\<close>

definition friends_recent_shares ::
  "db \<Rightarrow> user_id \<Rightarrow> time \<Rightarrow> time \<Rightarrow> location_share list" where
  "friends_recent_shares d request_user now_cutoff now =
     (let friends = get_friends d request_user;
          recent_cutoff = now_cutoff - timedelta_hours 24
      in take 20 (order_by_desc shared_at
           (filter (\<lambda>s. shr_user s \<in> set friends \<and> is_active s = True \<and>
                         expires_at s > now \<and> shared_at s \<ge> recent_cutoff)
                   (location_shares d))))"

text \<open>
  A GET of \<open>dashboard\<close>, as far as the shares go: the sweep at its own reading of the
  clock, then the query on the swept store at the later readings.
\<close>

definition dashboard_get_shares ::
  "db \<Rightarrow> user_id \<Rightarrow> time \<Rightarrow> time \<Rightarrow> time \<Rightarrow> db \<times> location_share list" where
  "dashboard_get_shares d request_user now_sweep now_cutoff now =
     (let d1 = sweep_expired d now_sweep
      in (d1, friends_recent_shares d1 request_user now_cutoff now))"

section \<open>Review aggregator (dashboard)\<close>

record review_post =
  p_location_id :: string
  p_wifi_rating :: "int field"
  p_cleanliness_rating :: "int field"
  p_noise_rating :: "int field"
  p_general_rating :: "pyfloat field"
  p_crowd_level :: string
  p_review_text :: string

text \<open>\<open>str.strip()\<close> on one-byte characters: the white space of Python's \<open>str.isspace\<close>.\<close>

definition isspace :: "char \<Rightarrow> bool" where
  "isspace c = ((of_char c :: nat) \<in> {9, 10, 11, 12, 13, 28, 29, 30, 31, 32, 133, 160})"

definition strip :: "string \<Rightarrow> string" where
  "strip s = rev (dropWhile isspace (rev (dropWhile isspace s)))"

text \<open>
  \<open>round(x, 1)\<close>: the nearest multiple of one tenth, a tie going to the even
  neighbour. The source rounds the double \<open>(wifi + cleanliness + noise) / 3\<close>; here
  the quotient is the exact rational, and the rounded value stands for the double
  nearest to it.
\<close>

definition round1 :: "rat \<Rightarrow> rat" where
  "round1 x =
     (let y = x * 10; f = \<lfloor>y\<rfloor>; r = y - of_int f
      in of_int (if r < 1 / 2 then f
                 else if r > 1 / 2 then f + 1
                 else if even f then f else f + 1) / 10)"

text \<open>\<open>LocationReview.save\<close>: what the override does to the object before it is written.\<close>

definition location_review_save :: "location_review \<Rightarrow> location_review" where
  "location_review_save r =
     r\<lparr>general_rating :=
         Finite (round1 (of_int (wifi_rating r + cleanliness_rating r + noise_rating r) / 3))\<rparr>"

text \<open>Writing a saved object: an UPDATE of the row with its key, or an INSERT with a new key.\<close>

definition update_review :: "location_review \<Rightarrow> db \<Rightarrow> db" where
  "update_review r d =
     d\<lparr>reviews := map (\<lambda>x. if review_id x = review_id r then r else x) (reviews d)\<rparr>"

definition insert_review :: "location_review \<Rightarrow> db \<Rightarrow> db" where
  "insert_review r d =
     d\<lparr>reviews := reviews d @ [r\<lparr>review_id := next_review_id d\<rparr>],
       next_review_id := Suc (next_review_id d)\<rparr>"

text \<open>
  \<open>update_location_crowd_level\<close>: the crowd level reported most often in the last two
  hours. \<open>crowd_counts\<close> is the dictionary in insertion order; \<open>max\<close> keeps the first
  entry among those with the highest count.
\<close>

fun crowd_counts :: "(string \<times> nat) list \<Rightarrow> string list \<Rightarrow> (string \<times> nat) list" where
  "crowd_counts counts [] = counts"
| "crowd_counts counts (lvl # lvls) =
     crowd_counts
       (if lvl \<in> fst ` set counts
          then map (\<lambda>(k, c). if k = lvl then (k, c + 1) else (k, c)) counts
          else counts @ [(lvl, 1)]) lvls"

fun max_by_count :: "(string \<times> nat) \<Rightarrow> (string \<times> nat) list \<Rightarrow> (string \<times> nat)" where
  "max_by_count best [] = best"
| "max_by_count best (x # xs) = max_by_count (if snd x > snd best then x else best) xs"

definition update_location_crowd_level :: "string \<Rightarrow> time \<Rightarrow> db \<Rightarrow> db" where
  "update_location_crowd_level lid now d =
     (let recent_reviews =
            order_by_desc rev_created_at
              (filter (\<lambda>r. rev_location r = lid \<and> rev_created_at r \<ge> now - timedelta_hours 2)
                      (reviews d))
      in case crowd_counts [] (map crowd_level recent_reviews) of
           [] \<Rightarrow> d
         | c # cs \<Rightarrow>
             d\<lparr>locations := map (\<lambda>l. if location_id l = lid
                                      then l\<lparr>current_crowd_level := fst (max_by_count c cs)\<rparr>
                                      else l) (locations d)\<rparr>)"

fun parse_ratings ::
  "int field \<Rightarrow> int field \<Rightarrow> int field \<Rightarrow> pyfloat field \<Rightarrow> (int \<times> int \<times> int \<times> pyfloat) option" where
  "parse_ratings (Parsed w) (Parsed c) (Parsed n) (Parsed g) = Some (w, c, n, g)"
| "parse_ratings _ _ _ _ = None"

text \<open>
  Action \<open>submit_review\<close>. The general rating of the form is checked for its range and
  handed to the model, whose \<open>save\<close> replaces it.
\<close>

definition submit_review :: "db \<Rightarrow> user_id \<Rightarrow> review_post \<Rightarrow> time \<Rightarrow> db \<times> message list" where
  "submit_review d request_user p now =
     (if p_location_id p = [] \<or> p_wifi_rating p = Missing \<or> p_cleanliness_rating p = Missing \<or>
         p_noise_rating p = Missing \<or> p_crowd_level p = []
        then (d, [Error ''Please fill in all required fields''])
      else case parse_ratings (p_wifi_rating p) (p_cleanliness_rating p) (p_noise_rating p)
                  (p_general_rating p) of
        None \<Rightarrow> (d, [Error ''Invalid rating values.''])
      | Some (w, c, n, g) \<Rightarrow>
          if \<not> (1 \<le> w \<and> w \<le> 10 \<and> 1 \<le> c \<and> c \<le> 10 \<and> 1 \<le> n \<and> n \<le> 10 \<and> float_in_range g)
            then (d, [Error ''Ratings must be between 1 and 10.''])
          else case get_object (\<lambda>l. location_id l = p_location_id p) (locations d) of
            None \<Rightarrow> (d, [Error ''Error submitting review''])
          | Some loc \<Rightarrow>
              (case order_by_desc rev_created_at
                      (filter (\<lambda>r. rev_user r = request_user \<and> rev_location r = location_id loc)
                              (reviews d)) of
                 existing_review # _ \<Rightarrow>
                   (update_location_crowd_level (location_id loc) now
                      (update_review
                         (location_review_save
                            (existing_review\<lparr>wifi_rating := w, cleanliness_rating := c,
                               noise_rating := n,
                               general_rating := g,
                               crowd_level := p_crowd_level p,
                               review_text := strip (p_review_text p),
                               rev_created_at := now\<rparr>)) d),
                    [Success ''Review updated''])
               | [] \<Rightarrow>
                   (update_location_crowd_level (location_id loc) now
                      (insert_review
                         (location_review_save
                            \<lparr>review_id = 0, rev_user = request_user,
                              rev_location = location_id loc, wifi_rating = w,
                              cleanliness_rating = c, noise_rating = n,
                              general_rating = g,
                              rating = None, review_text = strip (p_review_text p),
                              review_category = ''general'', crowd_level = p_crowd_level p,
                              rev_created_at = now, is_verified = False,
                              helpfulness_score = 0\<rparr>) d),
                    [Success ''Review submitted''])))"

section \<open>Event coordinator (dashboard)\<close>

text \<open>
  \<open>Event.save\<close>: what the override does to the object before it is written. A key of
  0 is falsy, like a missing organizer.
\<close>

definition event_save :: "event \<Rightarrow> event" where
  "event_save e =
     (if organizer e \<noteq> 0 \<and>
         (participant_user_ids e = [] \<or> organizer e \<notin> set (participant_user_ids e))
        then e\<lparr>participant_user_ids := participant_user_ids e @ [organizer e],
               current_participants := int (length (participant_user_ids e @ [organizer e]))\<rparr>
      else e)"

definition update_event :: "event \<Rightarrow> db \<Rightarrow> db" where
  "update_event e d =
     d\<lparr>events := map (\<lambda>x. if event_id x = event_id e then e else x) (events d)\<rparr>"

definition insert_event :: "event \<Rightarrow> db \<Rightarrow> db" where
  "insert_event e d =
     d\<lparr>events := events d @ [e\<lparr>event_id := next_event_id d\<rparr>],
       next_event_id := Suc (next_event_id d)\<rparr>"

text \<open>\<open>EventActivity.objects.create\<close>.\<close>

definition log_activity :: "user_id \<Rightarrow> nat \<Rightarrow> string \<Rightarrow> time \<Rightarrow> db \<Rightarrow> db" where
  "log_activity user eid kind now d =
     d\<lparr>activities := activities d @
          [\<lparr>activity_id = next_activity_id d, act_user = user, act_event = eid,
            activity_type = kind, act_created_at = now, is_visible = True\<rparr>],
       next_activity_id := Suc (next_activity_id d)\<rparr>"

definition get_current_participants :: "event \<Rightarrow> int" where
  "get_current_participants e = int (length (participant_user_ids e))"

definition can_join :: "event \<Rightarrow> bool" where
  "can_join e = (get_current_participants e < max_participants e)"

text \<open>
  Action \<open>create_event\<close>. The two timing fields have defaults, used when the field is
  absent (\<open>Missing\<close>); an empty one is \<open>Malformed\<close>.
\<close>

record event_post =
  p_event_title :: string
  p_event_description :: string
  p_event_location_id :: string
  p_event_type :: string
  p_max_participants :: "int field"
  p_hours_from_now :: "int field"
  p_duration_hours :: "int field"

fun parse_int :: "int \<Rightarrow> int field \<Rightarrow> int option" where
  "parse_int dflt Missing = Some dflt"
| "parse_int dflt Malformed = None"
| "parse_int dflt (Parsed v) = Some v"

definition create_event :: "db \<Rightarrow> user_id \<Rightarrow> event_post \<Rightarrow> time \<Rightarrow> db \<times> message list" where
  "create_event d request_user p now =
     (if strip (p_event_title p) = [] \<or> p_event_location_id p = [] \<or>
         p_max_participants p = Missing
        then (d, [Error ''Please fill in all required fields''])
      else case (parse_int 1 (p_hours_from_now p), parse_int 2 (p_duration_hours p),
                 parse_int 0 (p_max_participants p)) of
        (Some hours_from_now, Some duration_hours, Some max_p) \<Rightarrow>
          if hours_from_now < 0 \<or> duration_hours < 1 \<or> max_p < 1
            then (d, [Error ''Please enter valid numbers for timing and participants''])
          else (case get_object (\<lambda>l. location_id l = p_event_location_id p) (locations d) of
            None \<Rightarrow> (d, [Error ''Error creating event''])
          | Some loc \<Rightarrow>
              (let start = now + timedelta_hours hours_from_now;
                   e = event_save
                         \<lparr>event_id = 0, organizer = request_user,
                           ev_location = location_id loc, event_type = p_event_type p,
                           event_title = strip (p_event_title p),
                           event_description = strip (p_event_description p),
                           event_start = start,
                           event_end = start + timedelta_hours duration_hours,
                           max_participants = max_p, current_participants = 1,
                           participant_user_ids = [request_user], ev_status = ''active'',
                           ev_created_at = now, requires_approval = False,
                           is_started = False, started_at = None, invited_user_ids = [],
                           is_public = False\<rparr>
               in (log_activity request_user (next_event_id d) ''created'' now
                     (insert_event e d),
                   [Success ''Event created successfully!''])))
      | _ \<Rightarrow> (d, [Error ''Please enter valid numbers for timing and participants'']))"

text \<open>Action \<open>start_event\<close>: only the organizer's own events are found.\<close>

definition start_event :: "db \<Rightarrow> user_id \<Rightarrow> nat \<Rightarrow> time \<Rightarrow> db \<times> message list" where
  "start_event d request_user eid now =
     (case get_object (\<lambda>e. event_id e = eid \<and> organizer e = request_user) (events d) of
        None \<Rightarrow> (d, [Error ''Error starting event''])
      | Some e \<Rightarrow>
          if is_started e then (d, [Info ''Event is already started''])
          else (log_activity request_user (event_id e) ''started'' now
                  (update_event (event_save (e\<lparr>is_started := True, started_at := Some now\<rparr>)) d),
                [Success ''Event started!'']))"

text \<open>Action \<open>join_event\<close>.\<close>

definition join_event :: "db \<Rightarrow> user_id \<Rightarrow> nat \<Rightarrow> time \<Rightarrow> db \<times> message list" where
  "join_event d request_user eid now =
     (case get_object (\<lambda>e. event_id e = eid) (events d) of
        None \<Rightarrow> (d, [Error ''Error joining event''])
      | Some e \<Rightarrow>
          if request_user \<in> set (participant_user_ids e)
            then (d, [Info ''You are already participating in this event''])
          else if \<not> can_join e
            then (d, [Error ''Event is full''])
          else
            (let ids = participant_user_ids e @ [request_user];
                 e' = event_save (e\<lparr>participant_user_ids := ids,
                                     current_participants := int (length ids)\<rparr>)
             in (log_activity request_user (event_id e) ''joined'' now (update_event e' d),
                 [Success ''You joined the event!''])))"

text \<open>Action \<open>leave_event\<close>; \<open>list.remove\<close> takes the first occurrence out.\<close>

definition leave_event :: "db \<Rightarrow> user_id \<Rightarrow> nat \<Rightarrow> time \<Rightarrow> db \<times> message list" where
  "leave_event d request_user eid now =
     (case get_object (\<lambda>e. event_id e = eid) (events d) of
        None \<Rightarrow> (d, [Error ''Error leaving event''])
      | Some e \<Rightarrow>
          if request_user \<notin> set (participant_user_ids e)
            then (d, [Info ''You are not participating in this event''])
          else if organizer e = request_user
            then (d, [Error ''Event organizer cannot leave. Cancel the event instead.''])
          else
            (let ids = remove1 request_user (participant_user_ids e);
                 e' = event_save (e\<lparr>participant_user_ids := ids,
                                     current_participants := int (length ids)\<rparr>)
             in (log_activity request_user (event_id e) ''left'' now (update_event e' d),
                 [Success ''You left the event''])))"

text \<open>Action \<open>cancel_event\<close>: the activity is logged first, then the status is written.\<close>

definition cancel_event :: "db \<Rightarrow> user_id \<Rightarrow> nat \<Rightarrow> time \<Rightarrow> db \<times> message list" where
  "cancel_event d request_user eid now =
     (case get_object (\<lambda>e. event_id e = eid \<and> organizer e = request_user) (events d) of
        None \<Rightarrow> (d, [Error ''Error cancelling event''])
      | Some e \<Rightarrow>
          (update_event (event_save (e\<lparr>ev_status := ''cancelled''\<rparr>))
             (log_activity request_user (event_id e) ''cancelled'' now d),
           [Success ''Event cancelled'']))"

section \<open>Requests\<close>

text \<open>
  A POST to \<open>dashboard\<close>: the sweep, then the handler of the form's \<open>action\<close>. The
  other views that write the store follow.
\<close>

datatype request =
    Share_location string string
  | Stop_sharing
  | Submit_review review_post
  | Create_event event_post
  | Start_event nat
  | Join_event nat
  | Leave_event nat
  | Cancel_event nat
  | Send_friend_request user_id
  | Respond_friend_request nat string
  | Archive_memory nat

fun dashboard :: "db \<Rightarrow> user_id \<Rightarrow> time \<Rightarrow> request \<Rightarrow> db \<times> message list" where
  "dashboard d u now (Share_location lid msg) = share_location (sweep_expired d now) u lid msg now"
| "dashboard d u now Stop_sharing = stop_sharing (sweep_expired d now) u now"
| "dashboard d u now (Submit_review p) = submit_review (sweep_expired d now) u p now"
| "dashboard d u now (Create_event p) = create_event (sweep_expired d now) u p now"
| "dashboard d u now (Start_event eid) = start_event (sweep_expired d now) u eid now"
| "dashboard d u now (Join_event eid) = join_event (sweep_expired d now) u eid now"
| "dashboard d u now (Leave_event eid) = leave_event (sweep_expired d now) u eid now"
| "dashboard d u now (Cancel_event eid) = cancel_event (sweep_expired d now) u eid now"
| "dashboard d u now _ = (sweep_expired d now, [])"

fun handle :: "db \<Rightarrow> user_id \<Rightarrow> time \<Rightarrow> request \<Rightarrow> db \<times> message list" where
  "handle d u now (Send_friend_request uid) = send_friend_request d u uid now"
| "handle d u now (Respond_friend_request fid action) = respond_friend_request d u fid action now"
| "handle d u now (Archive_memory mid) = archive_memory d u mid"
| "handle d u now r = dashboard d u now r"

text \<open>A history of requests, each with its user and the time it is served.\<close>

fun run :: "db \<Rightarrow> (user_id \<times> time \<times> request) list \<Rightarrow> db" where
  "run d [] = d"
| "run d ((u, now, r) # rs) = run (fst (handle d u now r)) rs"

section \<open>Notions used in the statements\<close>

text \<open>The rows of a user's shares whose stored flag is set.\<close>

definition active_shares :: "user_id \<Rightarrow> db \<Rightarrow> location_share list" where
  "active_shares u d = filter (\<lambda>s. shr_user s = u \<and> is_active s) (location_shares d)"

text \<open>The row that \<open>share_location\<close> inserts.\<close>

definition new_share :: "db \<Rightarrow> user_id \<Rightarrow> string \<Rightarrow> string \<Rightarrow> time \<Rightarrow> location_share" where
  "new_share d v lid msg now =
     \<lparr>share_id = next_share_id d, shr_user = v, shr_location = lid, shared_at = now,
      expires_at = now + timedelta_hours 4, is_active = True,
      shr_visibility = ''all_friends'', status_message = msg, share_type = ''check_in''\<rparr>"

text \<open>
  What the database guarantees for the review table: the primary key is unique and
  below the next key, and \<open>unique_together\<close> holds for (user, location).
\<close>

definition wf_reviews :: "db \<Rightarrow> bool" where
  "wf_reviews d =
     (distinct (map review_id (reviews d)) \<and>
      list_all (\<lambda>r. review_id r < next_review_id d) (reviews d) \<and>
      distinct (map (\<lambda>r. (rev_user r, rev_location r)) (reviews d)))"

text \<open>The reviews of one user for one location.\<close>

definition reviews_of :: "user_id \<Rightarrow> string \<Rightarrow> db \<Rightarrow> location_review list" where
  "reviews_of u lid d = filter (\<lambda>r. rev_user r = u \<and> rev_location r = lid) (reviews d)"

text \<open>The mean of the three sub-ratings of a review, as an exact fraction.\<close>

definition mean_rating :: "location_review \<Rightarrow> rat" where
  "mean_rating r = of_int (wifi_rating r + cleanliness_rating r + noise_rating r) / 3"

text \<open>A stored review carries the values of a submitted form, served at \<open>now\<close>.\<close>

definition holds_post :: "review_post \<Rightarrow> time \<Rightarrow> location_review \<Rightarrow> bool" where
  "holds_post p now r =
     (p_wifi_rating p = Parsed (wifi_rating r) \<and>
      p_cleanliness_rating p = Parsed (cleanliness_rating r) \<and>
      p_noise_rating p = Parsed (noise_rating r) \<and>
      crowd_level r = p_crowd_level p \<and>
      review_text r = strip (p_review_text p) \<and>
      rev_created_at r = now \<and>
      general_rating r = Finite (round1 (mean_rating r)))"

text \<open>Two stores with the same review table.\<close>

definition same_reviews :: "db \<Rightarrow> db \<Rightarrow> bool" where
  "same_reviews d' d = (reviews d' = reviews d \<and> next_review_id d' = next_review_id d)"

text \<open>
  The roster invariant of an event: the organizer is on the roster, and the stored
  count is the length of the roster.
\<close>

definition event_inv :: "event \<Rightarrow> bool" where
  "event_inv e =
     (organizer e \<in> set (participant_user_ids e) \<and>
      current_participants e = int (length (participant_user_ids e)))"

text \<open>A small store and a memory, for the worked examples.\<close>

definition d0 :: db where
  "d0 = \<lparr>users = [1, 2, 3],
          locations = [\<lparr>location_id = ''P01_A'', location_name = ''Pillar 1'',
                        loc_is_active = True, active_users_count = 0,
                        current_crowd_level = ''light''\<rparr>],
          friendships = [], next_friendship_id = 1,
          location_shares = [], next_share_id = 1,
          reviews = [], next_review_id = 1,
          events = [], next_event_id = 1,
          activities = [], next_activity_id = 1,
          memories = []\<rparr>"

definition m0 :: memory where
  "m0 = \<lparr>memory_id = 1, mem_user = 1, mem_location = ''P01_A'', creation_date = 0,
          memory_title = ''t'', description = ''d'', media_type = ''none'',
          visibility = ''friends'', is_archived = False, is_featured = False, tags = [],
          year_created = Some 2025, likes_count = 0, liked_by_user_ids = [],
          view_count = 0, last_modified = 0\<rparr>"

definition post1 :: review_post where
  "post1 = \<lparr>p_location_id = ''P01_A'', p_wifi_rating = Parsed 7, p_cleanliness_rating = Parsed 8,
            p_noise_rating = Parsed 5, p_general_rating = Parsed (Finite 1),
            p_crowd_level = ''light'', p_review_text = '' quiet ''\<rparr>"

definition post2 :: review_post where
  "post2 = \<lparr>p_location_id = ''P01_A'', p_wifi_rating = Parsed 3, p_cleanliness_rating = Parsed 4,
            p_noise_rating = Parsed 9, p_general_rating = Parsed (Finite 10),
            p_crowd_level = ''heavy'', p_review_text = ''loud''\<rparr>"

definition ev_post :: event_post where
  "ev_post = \<lparr>p_event_title = ''Study'', p_event_description = ''algebra'',
              p_event_location_id = ''P01_A'', p_event_type = ''study_group'',
              p_max_participants = Parsed 2, p_hours_from_now = Missing,
              p_duration_hours = Parsed 3\<rparr>"

definition d_full :: db where
  "d_full = run d0 [(1, 10, Create_event ev_post), (2, 20, Join_event 1)]"

definition d_share :: db where
  "d_share = run d0 [(1, 5, Send_friend_request 2), (2, 6, Respond_friend_request 1 ''accept''),
                     (1, 10, Share_location ''P01_A'' ''studying'')]"

definition d_mem :: db where
  "d_mem = d_share\<lparr>memories :=
     [m0\<lparr>memory_id := 1, mem_user := 3, visibility := ''public'', creation_date := 1\<rparr>,
      m0\<lparr>memory_id := 2, mem_user := 1, creation_date := 2\<rparr>,
      m0\<lparr>memory_id := 3, mem_user := 2, visibility := ''private'', creation_date := 3\<rparr>,
      m0\<lparr>memory_id := 4, mem_user := 2, visibility := ''private'', creation_date := 4,
         is_archived := True\<rparr>,
      m0\<lparr>memory_id := 5, mem_user := 3, creation_date := 5\<rparr>,
      m0\<lparr>memory_id := 6, mem_user := 1, visibility := ''private'', creation_date := 6\<rparr>,
      m0\<lparr>memory_id := 7, mem_user := 3, visibility := ''public'', creation_date := 7,
         is_archived := True\<rparr>]\<rparr>"

section \<open>Properties\<close>

subsection \<open>Auxiliary facts\<close>

lemma get_object_users:
  "distinct us \<Longrightarrow> u \<in> set us \<Longrightarrow> get_object (\<lambda>x. x = u) us = Some u"
proof (induction us)
  case Nil then show ?case by simp
next
  case (Cons a us)
  show ?case
  proof (cases "a = u")
    case True
    with Cons.prems have "filter (\<lambda>x. x = u) us = []" by (auto simp: filter_empty_conv)
    with True show ?thesis by (simp add: get_object_def)
  next
    case False
    with Cons show ?thesis by (simp add: get_object_def)
  qed
qed

lemma filter_fresh_none:
  "\<forall>f\<in>set fs. friendship_id f < n \<Longrightarrow> filter (\<lambda>f. friendship_id f = n \<and> P f) fs = []"
  by (auto simp: filter_empty_conv)

lemma map_fresh_id:
  "\<forall>f\<in>set fs. friendship_id f < n \<Longrightarrow> map (\<lambda>r. if friendship_id r = n then g else r) fs = fs"
  by (induction fs) auto

lemma shares_update_active_users_count [simp]:
  "location_shares (update_active_users_count lid now d) = location_shares d"
  by (simp add: update_active_users_count_def Let_def)

lemma shares_update_location_crowd_level [simp]:
  "location_shares (update_location_crowd_level lid now d) = location_shares d"
  by (simp add: update_location_crowd_level_def Let_def split: list.splits)

lemma shares_log_activity [simp]:
  "location_shares (log_activity u e k now d) = location_shares d"
  by (simp add: log_activity_def)

lemma filter_map_deactivate_le:
  "length (filter (\<lambda>s. shr_user s = u \<and> is_active s)
       (map (\<lambda>s. if Q s then s\<lparr>is_active := False\<rparr> else s) xs))
   \<le> length (filter (\<lambda>s. shr_user s = u \<and> is_active s) xs)"
  by (induction xs) auto

lemma filter_map_deactivate_user:
  "filter (\<lambda>s. shr_user s = u \<and> is_active s)
       (map (\<lambda>s. if shr_user s = u \<and> is_active s then s\<lparr>is_active := False\<rparr> else s) xs) = []"
  by (induction xs) auto

lemma active_sweep: "length (active_shares u (sweep_expired d now)) \<le> length (active_shares u d)"
  using filter_map_deactivate_le[of u "\<lambda>s. expires_at s \<le> now \<and> is_active s" "location_shares d"]
  by (simp add: active_shares_def sweep_expired_def del: filter_map)

lemma active_deactivate: "length (active_shares u (deactivate_shares v d)) \<le> length (active_shares u d)"
  using filter_map_deactivate_le[of u "\<lambda>s. shr_user s = v \<and> is_active s" "location_shares d"]
  by (simp add: active_shares_def deactivate_shares_def del: filter_map)

lemma active_deactivate_self: "active_shares u (deactivate_shares u d) = []"
  using filter_map_deactivate_user[of u "location_shares d"]
  by (simp add: active_shares_def deactivate_shares_def del: filter_map)

lemma active_shares_append:
  "location_shares d' = location_shares d @ [s] \<Longrightarrow>
   active_shares u d' = active_shares u d @ (if shr_user s = u \<and> is_active s then [s] else [])"
  by (simp add: active_shares_def)

lemma active_shares_cong: "location_shares d' = location_shares d \<Longrightarrow> active_shares u d' = active_shares u d"
  by (simp add: active_shares_def)

lemma share_location_ok:
  assumes "lid \<noteq> []" "filter (\<lambda>l. location_id l = lid) (locations d) = [loc]"
  shows "snd (share_location d v lid msg now) = [Success ''Location shared'']"
    and "location_shares (fst (share_location d v lid msg now)) =
           location_shares (deactivate_shares v d) @ [new_share d v (location_id loc) msg now]"
  using assms by (simp_all add: share_location_def Let_def deactivate_shares_def new_share_def)

lemma share_location_fail:
  assumes "lid = [] \<or> (\<forall>loc. filter (\<lambda>l. location_id l = lid) (locations d) \<noteq> [loc])"
  shows "fst (share_location d v lid msg now) = d"
    and "snd (share_location d v lid msg now) \<noteq> [Success ''Location shared'']"
  using assms by (auto simp: share_location_def split: list.splits)

lemma active_share_location:
  assumes "length (active_shares u d) \<le> 1"
  shows "length (active_shares u (fst (share_location d v lid msg now))) \<le> 1"
proof (cases "lid \<noteq> [] \<and> (\<exists>loc. filter (\<lambda>l. location_id l = lid) (locations d) = [loc])")
  case False
  then show ?thesis using share_location_fail(1)[of lid d v msg now] assms by auto
next
  case True
  then obtain loc where loc: "lid \<noteq> []" "filter (\<lambda>l. location_id l = lid) (locations d) = [loc]"
    by blast
  note s = share_location_ok(2)[OF loc, of v msg now]
  show ?thesis
  proof (cases "v = u")
    case True
    then show ?thesis
      using active_shares_append[OF s, of u] active_deactivate_self[of u d] by simp
  next
    case False
    then show ?thesis
      using active_shares_append[OF s, of u] active_deactivate[of u v d] assms
      by (simp add: new_share_def)
  qed
qed

lemma stop_sharing_shares:
  "location_shares (fst (stop_sharing d v now)) = location_shares (deactivate_shares v d)"
proof (cases "order_by_desc shared_at
              (filter (\<lambda>s. shr_user s = v \<and> is_active s = True \<and>
                            expires_at s > now) (location_shares d))")
  case Nil
  then show ?thesis unfolding stop_sharing_def Let_def by simp
next
  case (Cons a list)
  then show ?thesis unfolding stop_sharing_def Let_def by simp
qed

lemma active_stop_sharing:
  "length (active_shares u (fst (stop_sharing d v now))) \<le> length (active_shares u d)"
  using active_deactivate[of u v d] by (simp add: active_shares_cong[OF stop_sharing_shares])

lemma shares_update_review [simp]: "location_shares (update_review r d) = location_shares d"
  by (simp add: update_review_def)

lemma shares_insert_review [simp]: "location_shares (insert_review r d) = location_shares d"
  by (simp add: insert_review_def)

lemma shares_update_event [simp]: "location_shares (update_event r d) = location_shares d"
  by (simp add: update_event_def)

lemma shares_insert_event [simp]: "location_shares (insert_event r d) = location_shares d"
  by (simp add: insert_event_def)

lemma shares_submit_review [simp]:
  "location_shares (fst (submit_review d u p now)) = location_shares d"
  by (simp add: submit_review_def split: option.splits list.splits prod.splits)

lemma shares_create_event [simp]:
  "location_shares (fst (create_event d u p now)) = location_shares d"
  by (simp add: create_event_def Let_def split: option.splits prod.splits)

lemma shares_start_event [simp]:
  "location_shares (fst (start_event d u e now)) = location_shares d"
  by (simp add: start_event_def split: option.splits)

lemma shares_join_event [simp]:
  "location_shares (fst (join_event d u e now)) = location_shares d"
  by (simp add: join_event_def Let_def split: option.splits)

lemma shares_leave_event [simp]:
  "location_shares (fst (leave_event d u e now)) = location_shares d"
  by (simp add: leave_event_def Let_def split: option.splits)

lemma shares_cancel_event [simp]:
  "location_shares (fst (cancel_event d u e now)) = location_shares d"
  by (simp add: cancel_event_def split: option.splits)

lemma shares_send_friend_request [simp]:
  "location_shares (fst (send_friend_request d u v now)) = location_shares d"
  by (simp add: send_friend_request_def split: option.splits list.splits)

lemma shares_respond_friend_request [simp]:
  "location_shares (fst (respond_friend_request d u f a now)) = location_shares d"
  by (simp add: respond_friend_request_def friendship_save_def friendship_delete_def split: option.splits)

lemma shares_archive_memory [simp]:
  "location_shares (fst (archive_memory d u m)) = location_shares d"
  by (simp add: archive_memory_def memory_save_is_archived_def Let_def split: option.splits)

lemma active_dashboard:
  assumes "length (active_shares u d) \<le> 1"
  shows "length (active_shares u (fst (dashboard d v now r))) \<le> 1"
proof -
  have sw: "length (active_shares u (sweep_expired d now)) \<le> 1"
    using assms active_sweep[of u d now] by simp
  have fr: "length (active_shares u d') \<le> 1"
    if "location_shares d' = location_shares (sweep_expired d now)" for d'
    using sw active_shares_cong[OF that, of u] by simp
  show ?thesis
  proof (cases r)
    case (Share_location lid msg)
    then show ?thesis using active_share_location[OF sw] by simp
  next
    case Stop_sharing
    then show ?thesis using active_stop_sharing[of u "sweep_expired d now" v now] sw by simp
  next
    case (Submit_review p)
    then show ?thesis using fr[OF shares_submit_review] by simp
  next
    case (Create_event p)
    then show ?thesis using fr[OF shares_create_event] by simp
  next
    case (Start_event e)
    then show ?thesis using fr[OF shares_start_event] by simp
  next
    case (Join_event e)
    then show ?thesis using fr[OF shares_join_event] by simp
  next
    case (Leave_event e)
    then show ?thesis using fr[OF shares_leave_event] by simp
  next
    case (Cancel_event e)
    then show ?thesis using fr[OF shares_cancel_event] by simp
  next
    case (Send_friend_request x)
    then show ?thesis using sw by simp
  next
    case (Respond_friend_request x y)
    then show ?thesis using sw by simp
  next
    case (Archive_memory x)
    then show ?thesis using sw by simp
  qed
qed

lemma active_handle:
  assumes "length (active_shares u d) \<le> 1"
  shows "length (active_shares u (fst (handle d v now r))) \<le> 1"
proof (cases r)
  case (Send_friend_request x)
  then show ?thesis using assms by (simp add: active_shares_cong[OF shares_send_friend_request])
next
  case (Respond_friend_request x y)
  then show ?thesis using assms by (simp add: active_shares_cong[OF shares_respond_friend_request])
next
  case (Archive_memory x)
  then show ?thesis using assms by (simp add: active_shares_cong[OF shares_archive_memory])
qed (use active_dashboard[OF assms, of v now r] in simp_all)

lemma active_run:
  "length (active_shares u d) \<le> 1 \<Longrightarrow> length (active_shares u (run d rs)) \<le> 1"
proof (induction rs arbitrary: d)
  case Nil
  then show ?case by simp
next
  case (Cons x rs)
  obtain v now r where x: "x = (v, now, r)" by (cases x)
  show ?case using Cons.IH[OF active_handle[OF Cons.prems]] by (simp add: x)
qed


lemma filter_singleton_holds: "filter P xs = [x] \<Longrightarrow> P x"
proof -
  assume "filter P xs = [x]"
  then have "x \<in> set (filter P xs)" by simp
  then show "P x" by simp
qed

lemma filter_extra_le:
  "length (filter (\<lambda>s. P s \<and> Q s) xs) \<le> length (filter P xs)"
  by (induction xs) auto

lemma locations_sweep [simp]: "locations (sweep_expired d now) = locations d"
  by (simp add: sweep_expired_def)

lemma next_share_id_sweep [simp]: "next_share_id (sweep_expired d now) = next_share_id d"
  by (simp add: sweep_expired_def)

lemma round1_third: "round1 (of_int s / 3) = of_int ((10 * s + 1) div 3) / 10"
proof -
  define k where "k = s div 3"
  define j where "j = s mod 3"
  have s: "s = 3 * k + j" and j: "0 \<le> j" "j < 3" by (simp_all add: k_def j_def)
  from j consider "j = 0" | "j = 1" | "j = 2" by linarith
  then show ?thesis
  proof cases
    case 1
    have y: "(of_int s / 3 :: rat) * 10 = of_int (10 * k)" using s 1 by simp
    have d: "(10 * s + 1) div 3 = 10 * k" using s 1 by simp
    show ?thesis unfolding round1_def Let_def y d by simp
  next
    case 2
    have y: "(of_int s / 3 :: rat) * 10 = of_int (10 * k + 3) + 1 / 3" using s 2 by simp
    have f: "\<lfloor>of_int (10 * k + 3) + (1 / 3 :: rat)\<rfloor> = 10 * k + 3" by (rule floor_unique) simp_all
    have d: "(10 * s + 1) div 3 = 10 * k + 3" using s 2 by simp
    show ?thesis unfolding round1_def Let_def y f d by simp
  next
    case 3
    have y: "(of_int s / 3 :: rat) * 10 = of_int (10 * k + 6) + 2 / 3" using s 3 by simp
    have f: "\<lfloor>of_int (10 * k + 6) + (2 / 3 :: rat)\<rfloor> = 10 * k + 6" by (rule floor_unique) simp_all
    have d: "(10 * s + 1) div 3 = 10 * k + 7" using s 3 by simp
    show ?thesis unfolding round1_def Let_def y f d by simp
  qed
qed

lemma round1_third_near:
  "\<bar>round1 (of_int s / 3) - of_int s / 3\<bar> < 1 / 20"
proof -
  define k where "k = s div 3"
  define j where "j = s mod 3"
  have s: "s = 3 * k + j" and j: "0 \<le> j" "j < 3" by (simp_all add: k_def j_def)
  from j consider "j = 0" | "j = 1" | "j = 2" by linarith
  then show ?thesis
  proof cases
    case 1
    have d: "(10 * s + 1) div 3 = 10 * k" using s 1 by simp
    show ?thesis unfolding round1_third d using s 1 by simp
  next
    case 2
    have d: "(10 * s + 1) div 3 = 10 * k + 3" using s 2 by simp
    show ?thesis unfolding round1_third d using s 2 by (simp add: field_simps)
  next
    case 3
    have d: "(10 * s + 1) div 3 = 10 * k + 7" using s 3 by simp
    show ?thesis unfolding round1_third d using s 3 by (simp add: field_simps)
  qed
qed


lemma reviews_sweep [simp]: "reviews (sweep_expired d now) = reviews d"
  and next_review_id_sweep [simp]: "next_review_id (sweep_expired d now) = next_review_id d"
  by (simp_all add: sweep_expired_def)

lemma reviews_crowd [simp]: "reviews (update_location_crowd_level lid now d) = reviews d"
  and next_review_id_crowd [simp]:
    "next_review_id (update_location_crowd_level lid now d) = next_review_id d"
  by (simp_all add: update_location_crowd_level_def Let_def split: list.splits)

lemma get_object_SomeD: "get_object P xs = Some x \<Longrightarrow> P x"
proof -
  assume "get_object P xs = Some x"
  then have "filter P xs = [x]" by (simp add: get_object_def split: list.splits)
  then have "x \<in> set (filter P xs)" by simp
  then show "P x" by simp
qed

lemma parse_ratings_SomeD:
  "parse_ratings a b c e = Some (w, x, n, g) \<Longrightarrow>
     a = Parsed w \<and> b = Parsed x \<and> c = Parsed n \<and> e = Parsed g"
  by (cases a; cases b; cases c; cases e) simp_all

lemma submit_review_success:
  assumes "snd (submit_review d u p now) = [Success m]"
  shows "\<exists>w c n g loc.
           p_wifi_rating p = Parsed w \<and> p_cleanliness_rating p = Parsed c \<and>
           p_noise_rating p = Parsed n \<and> p_general_rating p = Parsed g \<and>
           1 \<le> w \<and> w \<le> 10 \<and> 1 \<le> c \<and> c \<le> 10 \<and> 1 \<le> n \<and> n \<le> 10 \<and> float_in_range g \<and>
           p_crowd_level p \<noteq> [] \<and> p_location_id p \<noteq> [] \<and>
           get_object (\<lambda>l. location_id l = p_location_id p) (locations d) = Some loc"
proof -
  let ?pr = "parse_ratings (p_wifi_rating p) (p_cleanliness_rating p) (p_noise_rating p)
                  (p_general_rating p)"
  have req: "p_crowd_level p \<noteq> [] \<and> p_location_id p \<noteq> []"
    using assms by (auto simp: submit_review_def split: if_splits)
  have nm: "\<not> (p_location_id p = [] \<or> p_wifi_rating p = Missing \<or> p_cleanliness_rating p = Missing \<or>
         p_noise_rating p = Missing \<or> p_crowd_level p = [])"
    using assms by (auto simp: submit_review_def split: if_splits)
  obtain w c n g where pr: "?pr = Some (w, c, n, g)"
    using assms nm by (cases ?pr) (auto simp: submit_review_def)
  have rng: "1 \<le> w \<and> w \<le> 10 \<and> 1 \<le> c \<and> c \<le> 10 \<and> 1 \<le> n \<and> n \<le> 10 \<and> float_in_range g"
    using assms nm pr by (auto simp: submit_review_def split: if_splits)
  obtain loc where loc: "get_object (\<lambda>l. location_id l = p_location_id p) (locations d) = Some loc"
    using assms nm pr rng
    by (cases "get_object (\<lambda>l. location_id l = p_location_id p) (locations d)")
       (auto simp: submit_review_def)
  show ?thesis using parse_ratings_SomeD[OF pr] rng req loc by blast
qed


lemma order_by_desc_single [simp]: "order_by_desc k [x] = [x]" "order_by_desc k [] = []"
  by (simp_all add: order_by_desc_def)

lemma filter_map_same:
  "(\<And>x. x \<in> set xs \<Longrightarrow> P (f x) = P x) \<Longrightarrow> filter P (map f xs) = map f (filter P xs)"
  by (induction xs) auto

lemma distinct_key_eq:
  "distinct (map k xs) \<Longrightarrow> x \<in> set xs \<Longrightarrow> y \<in> set xs \<Longrightarrow> k x = k y \<Longrightarrow> x = y"
  by (meson distinct_map inj_onD)

lemma distinct_pairs_filter:
  assumes "distinct (map (\<lambda>r. (rev_user r, rev_location r)) rs)"
  shows "filter (\<lambda>r. rev_user r = u \<and> rev_location r = l) rs = [] \<or>
         (\<exists>e. filter (\<lambda>r. rev_user r = u \<and> rev_location r = l) rs = [e])"
  using assms
proof (induction rs)
  case Nil
  then show ?case by simp
next
  case (Cons a rs)
  show ?case
  proof (cases "rev_user a = u \<and> rev_location a = l")
    case True
    have "(rev_user a, rev_location a) \<notin> (\<lambda>r. (rev_user r, rev_location r)) ` set rs"
      using Cons.prems by simp
    with True have "\<forall>r\<in>set rs. \<not> (rev_user r = u \<and> rev_location r = l)"
      by (auto simp: image_iff)
    then have "filter (\<lambda>r. rev_user r = u \<and> rev_location r = l) rs = []"
      by (simp add: filter_empty_conv)
    with True show ?thesis by simp
  next
    case False
    have "distinct (map (\<lambda>r. (rev_user r, rev_location r)) rs)" using Cons.prems by simp
    from Cons.IH[OF this] False show ?thesis by auto
  qed
qed

lemma submit_review_insert:
  assumes "p_wifi_rating p = Parsed w" "p_cleanliness_rating p = Parsed c"
    "p_noise_rating p = Parsed n" "p_general_rating p = Parsed g"
    "1 \<le> w \<and> w \<le> 10 \<and> 1 \<le> c \<and> c \<le> 10 \<and> 1 \<le> n \<and> n \<le> 10 \<and> float_in_range g"
    "p_crowd_level p \<noteq> []" "p_location_id p \<noteq> []"
    "get_object (\<lambda>l. location_id l = p_location_id p) (locations d) = Some loc"
    "reviews_of u (location_id loc) d = []"
  shows "snd (submit_review d u p now) = [Success ''Review submitted'']"
    and "reviews (fst (submit_review d u p now)) = reviews d @
           [\<lparr>review_id = next_review_id d, rev_user = u,
             rev_location = location_id loc, wifi_rating = w,
             cleanliness_rating = c, noise_rating = n,
             general_rating = Finite (round1 (of_int (w + c + n) / 3)),
             rating = None, review_text = strip (p_review_text p),
             review_category = ''general'', crowd_level = p_crowd_level p,
             rev_created_at = now, is_verified = False,
             helpfulness_score = 0\<rparr>]"
    and "next_review_id (fst (submit_review d u p now)) = Suc (next_review_id d)"
  using assms
  by (simp_all add: submit_review_def reviews_of_def insert_review_def location_review_save_def)

lemma submit_review_update:
  assumes "p_wifi_rating p = Parsed w" "p_cleanliness_rating p = Parsed c"
    "p_noise_rating p = Parsed n" "p_general_rating p = Parsed g"
    "1 \<le> w \<and> w \<le> 10 \<and> 1 \<le> c \<and> c \<le> 10 \<and> 1 \<le> n \<and> n \<le> 10 \<and> float_in_range g"
    "p_crowd_level p \<noteq> []" "p_location_id p \<noteq> []"
    "get_object (\<lambda>l. location_id l = p_location_id p) (locations d) = Some loc"
    "reviews_of u (location_id loc) d = [e]"
  shows "snd (submit_review d u p now) = [Success ''Review updated'']"
    and "reviews (fst (submit_review d u p now)) =
           map (\<lambda>x. if review_id x = review_id e
                then e\<lparr>wifi_rating := w, cleanliness_rating := c, noise_rating := n,
                       general_rating := Finite (round1 (of_int (w + c + n) / 3)),
                       crowd_level := p_crowd_level p,
                       review_text := strip (p_review_text p), rev_created_at := now\<rparr>
                else x) (reviews d)"
    and "next_review_id (fst (submit_review d u p now)) = next_review_id d"
  using assms
  by (simp_all add: submit_review_def reviews_of_def update_review_def location_review_save_def)


lemma submit_review_unchanged:
  "fst (submit_review d u p now) = d \<or> (\<exists>m. snd (submit_review d u p now) = [Success m])"
  by (simp add: submit_review_def split: option.splits prod.splits list.splits)

lemma submit_review_written:
  assumes wf: "wf_reviews d" and ok: "snd (submit_review d u p now) = [Success m]"
  shows "wf_reviews (fst (submit_review d u p now)) \<and>
         (\<exists>r. reviews_of u (p_location_id p) (fst (submit_review d u p now)) = [r] \<and>
              holds_post p now r \<and>
              (reviews_of u (p_location_id p) d = [] \<longrightarrow>
                 m = ''Review submitted'' \<and> review_id r = next_review_id d \<and>
                 length (reviews (fst (submit_review d u p now))) = Suc (length (reviews d))) \<and>
              (\<forall>e. reviews_of u (p_location_id p) d = [e] \<longrightarrow>
                 m = ''Review updated'' \<and> review_id r = review_id e \<and>
                 length (reviews (fst (submit_review d u p now))) = length (reviews d)))"
proof -
  let ?d' = "fst (submit_review d u p now)"
  from submit_review_success[OF ok] obtain w c n g loc where
    v: "p_wifi_rating p = Parsed w" "p_cleanliness_rating p = Parsed c"
       "p_noise_rating p = Parsed n" "p_general_rating p = Parsed g"
       "1 \<le> w \<and> w \<le> 10 \<and> 1 \<le> c \<and> c \<le> 10 \<and> 1 \<le> n \<and> n \<le> 10 \<and> float_in_range g"
       "p_crowd_level p \<noteq> []" "p_location_id p \<noteq> []"
       "get_object (\<lambda>l. location_id l = p_location_id p) (locations d) = Some loc"
    by blast
  have lid: "location_id loc = p_location_id p" using get_object_SomeD[OF v(8)] .
  have ids: "distinct (map review_id (reviews d))"
    and fresh: "\<forall>r\<in>set (reviews d). review_id r < next_review_id d"
    and pairs: "distinct (map (\<lambda>r. (rev_user r, rev_location r)) (reviews d))"
    using wf by (simp_all add: wf_reviews_def list_all_iff)
  from distinct_pairs_filter[OF pairs, of u "p_location_id p"]
  consider "reviews_of u (p_location_id p) d = []"
    | e where "reviews_of u (p_location_id p) d = [e]"
    by (auto simp: reviews_of_def)
  then show ?thesis
  proof cases
    case 1
    then have none: "reviews_of u (location_id loc) d = []" by (simp add: lid)
    let ?new = "\<lparr>review_id = next_review_id d, rev_user = u,
             rev_location = location_id loc, wifi_rating = w,
             cleanliness_rating = c, noise_rating = n,
             general_rating = Finite (round1 (of_int (w + c + n) / 3)),
             rating = None, review_text = strip (p_review_text p),
             review_category = ''general'', crowd_level = p_crowd_level p,
             rev_created_at = now, is_verified = False,
             helpfulness_score = 0\<rparr>"
    note ins = submit_review_insert[OF v none, of now]
    have m: "m = ''Review submitted''" using ok ins(1) by simp
    have rs: "reviews ?d' = reviews d @ [?new]" by (rule ins(2))
    have nofresh: "next_review_id d \<notin> review_id ` set (reviews d)" using fresh by auto
    have nopair: "(u, location_id loc) \<notin> (\<lambda>r. (rev_user r, rev_location r)) ` set (reviews d)"
    proof
      assume "(u, location_id loc) \<in> (\<lambda>r. (rev_user r, rev_location r)) ` set (reviews d)"
      then obtain r where "r \<in> set (reviews d)" "rev_user r = u" "rev_location r = location_id loc"
        by auto
      then have "r \<in> set (reviews_of u (location_id loc) d)" by (simp add: reviews_of_def)
      with none show False by simp
    qed
    have wf': "wf_reviews ?d'"
      using ids fresh pairs nofresh nopair
      by (auto simp: wf_reviews_def rs ins(3) list_all_iff less_Suc_eq)
    have ro: "reviews_of u (p_location_id p) ?d' = [?new]"
      using 1 by (simp add: reviews_of_def rs lid)
    have hp: "holds_post p now ?new" using v by (simp add: holds_post_def mean_rating_def)
    show ?thesis using wf' ro hp m 1 rs by simp
  next
    case 2
    then have one: "reviews_of u (location_id loc) d = [e]" by (simp add: lid)
    let ?upd = "e\<lparr>wifi_rating := w, cleanliness_rating := c, noise_rating := n,
                       general_rating := Finite (round1 (of_int (w + c + n) / 3)),
                       crowd_level := p_crowd_level p,
                       review_text := strip (p_review_text p), rev_created_at := now\<rparr>"
    let ?f = "\<lambda>x. if review_id x = review_id e then ?upd else x"
    note upd = submit_review_update[OF v one, of now]
    have m: "m = ''Review updated''" using ok upd(1) by simp
    have rs: "reviews ?d' = map ?f (reviews d)" by (rule upd(2))
    have "e \<in> set (reviews_of u (p_location_id p) d)" using 2 by simp
    then have e_in: "e \<in> set (reviews d)" and e_u: "rev_user e = u"
      and e_l: "rev_location e = p_location_id p"
      by (simp_all add: reviews_of_def)
    have only: "x = e" if "x \<in> set (reviews d)" "review_id x = review_id e" for x
      using distinct_key_eq[OF ids that(1) e_in that(2)] .
    have keep_id: "map review_id (map ?f (reviews d)) = map review_id (reviews d)"
      by (rule nth_equalityI) auto
    have "(rev_user (?f x), rev_location (?f x)) = (rev_user x, rev_location x)"
      if "x \<in> set (reviews d)" for x
      using only[OF that] by auto
    then have keep_pair: "map (\<lambda>r. (rev_user r, rev_location r)) (map ?f (reviews d)) =
                     map (\<lambda>r. (rev_user r, rev_location r)) (reviews d)"
      unfolding map_map o_def by (intro map_cong) simp_all
    have fresh': "\<forall>r\<in>set (map ?f (reviews d)). review_id r < next_review_id d"
      using fresh e_in by auto
    have wf': "wf_reviews ?d'"
      using ids pairs fresh' keep_id keep_pair
      by (simp add: wf_reviews_def rs upd(3) list_all_iff del: map_map)
    have "filter (\<lambda>r. rev_user r = u \<and> rev_location r = p_location_id p) (map ?f (reviews d)) =
          map ?f (filter (\<lambda>r. rev_user r = u \<and> rev_location r = p_location_id p) (reviews d))"
      using only e_u e_l by (intro filter_map_same) auto
    then have ro: "reviews_of u (p_location_id p) ?d' = [?upd]"
      using 2 by (simp add: reviews_of_def rs del: filter_map)
    have hp: "holds_post p now ?upd" using v by (simp add: holds_post_def mean_rating_def)
    show ?thesis using wf' ro hp m 2 rs by simp
  qed
qed


lemma same_reviews_wf: "same_reviews d' d \<Longrightarrow> wf_reviews d' = wf_reviews d"
  by (simp add: same_reviews_def wf_reviews_def)

lemma same_reviews_refl [simp]: "same_reviews d d"
  by (simp add: same_reviews_def)

lemma same_reviews_trans: "same_reviews d'' d' \<Longrightarrow> same_reviews d' d \<Longrightarrow> same_reviews d'' d"
  by (simp add: same_reviews_def)

lemma same_reviews_prims [simp]:
  "same_reviews (sweep_expired d now) d"
  "same_reviews (deactivate_shares u d) d"
  "same_reviews (update_active_users_count lid now d) d"
  "same_reviews (update_location_crowd_level lid now d) d"
  "same_reviews (log_activity u e k now d) d"
  "same_reviews (update_event ev d) d"
  "same_reviews (insert_event ev d) d"
  "same_reviews (friendship_save f d) d"
  "same_reviews (friendship_delete f d) d"
  "same_reviews (memory_save_is_archived m d) d"
  by (simp_all add: same_reviews_def sweep_expired_def deactivate_shares_def
        update_active_users_count_def log_activity_def update_event_def insert_event_def
        friendship_save_def friendship_delete_def memory_save_is_archived_def Let_def)

lemma same_reviews_upd [simp]:
  "same_reviews (d\<lparr>location_shares := x\<rparr>) d"
  "same_reviews (d\<lparr>next_share_id := y\<rparr>) d"
  "same_reviews (d\<lparr>friendships := z\<rparr>) d"
  "same_reviews (d\<lparr>next_friendship_id := y\<rparr>) d"
  by (simp_all add: same_reviews_def)

lemma same_reviews_share_location: "same_reviews (fst (share_location d u lid msg now)) d"
  by (simp add: share_location_def Let_def same_reviews_def deactivate_shares_def
        update_active_users_count_def split: list.splits)

lemma same_reviews_stop_sharing: "same_reviews (fst (stop_sharing d u now)) d"
proof (cases "order_by_desc shared_at
              (filter (\<lambda>s. shr_user s = u \<and> is_active s = True \<and>
                            expires_at s > now) (location_shares d))")
  case Nil
  then show ?thesis unfolding stop_sharing_def Let_def by simp
next
  case (Cons a list)
  have "same_reviews (update_active_users_count (shr_location a) now (deactivate_shares u d)) d"
    by (rule same_reviews_trans[OF same_reviews_prims(3) same_reviews_prims(2)])
  with Cons show ?thesis unfolding stop_sharing_def Let_def by simp
qed

lemma same_reviews_create_event: "same_reviews (fst (create_event d u p now)) d"
  by (simp add: create_event_def Let_def same_reviews_def log_activity_def insert_event_def
        split: option.splits prod.splits)

lemma same_reviews_start_event: "same_reviews (fst (start_event d u e now)) d"
  by (simp add: start_event_def same_reviews_def log_activity_def update_event_def
        split: option.splits)

lemma same_reviews_join_event: "same_reviews (fst (join_event d u e now)) d"
  by (simp add: join_event_def Let_def same_reviews_def log_activity_def update_event_def
        split: option.splits)

lemma same_reviews_leave_event: "same_reviews (fst (leave_event d u e now)) d"
  by (simp add: leave_event_def Let_def same_reviews_def log_activity_def update_event_def
        split: option.splits)

lemma same_reviews_cancel_event: "same_reviews (fst (cancel_event d u e now)) d"
  by (simp add: cancel_event_def same_reviews_def log_activity_def update_event_def
        split: option.splits)

lemma same_reviews_send_friend_request: "same_reviews (fst (send_friend_request d u v now)) d"
  by (simp add: send_friend_request_def same_reviews_def split: option.splits list.splits)

lemma same_reviews_respond: "same_reviews (fst (respond_friend_request d u f a now)) d"
  by (simp add: respond_friend_request_def same_reviews_def friendship_save_def
        friendship_delete_def split: option.splits)

lemma same_reviews_archive: "same_reviews (fst (archive_memory d u m)) d"
  by (simp add: archive_memory_def same_reviews_def memory_save_is_archived_def Let_def
        split: option.splits)

lemma wf_submit_review: "wf_reviews d \<Longrightarrow> wf_reviews (fst (submit_review d u p now))"
  using submit_review_unchanged[of d u p now] submit_review_written[of d u p now] by auto

lemma wf_handle:
  assumes "wf_reviews d"
  shows "wf_reviews (fst (handle d u now r))"
proof -
  have sw: "wf_reviews (sweep_expired d now)"
    using assms same_reviews_wf[OF same_reviews_prims(1), of d now] by simp
  have fr: "wf_reviews d'" if "same_reviews d' (sweep_expired d now)" for d'
    using sw same_reviews_wf[OF that] by simp
  show ?thesis
  proof (cases r)
    case (Share_location lid msg)
    then show ?thesis using fr[OF same_reviews_share_location] by simp
  next
    case Stop_sharing
    then show ?thesis using fr[OF same_reviews_stop_sharing] by simp
  next
    case (Submit_review p)
    then show ?thesis using wf_submit_review[OF sw] by simp
  next
    case (Create_event p)
    then show ?thesis using fr[OF same_reviews_create_event] by simp
  next
    case (Start_event e)
    then show ?thesis using fr[OF same_reviews_start_event] by simp
  next
    case (Join_event e)
    then show ?thesis using fr[OF same_reviews_join_event] by simp
  next
    case (Leave_event e)
    then show ?thesis using fr[OF same_reviews_leave_event] by simp
  next
    case (Cancel_event e)
    then show ?thesis using fr[OF same_reviews_cancel_event] by simp
  next
    case (Send_friend_request x)
    then show ?thesis
      using assms same_reviews_wf[OF same_reviews_send_friend_request, of d u x now] by simp
  next
    case (Respond_friend_request x y)
    then show ?thesis
      using assms same_reviews_wf[OF same_reviews_respond, of d u x y now] by simp
  next
    case (Archive_memory x)
    then show ?thesis
      using assms same_reviews_wf[OF same_reviews_archive, of d u x] by simp
  qed
qed

lemma wf_run: "wf_reviews d \<Longrightarrow> wf_reviews (run d rs)"
proof (induction rs arbitrary: d)
  case Nil
  then show ?case by simp
next
  case (Cons x rs)
  obtain v now r where x: "x = (v, now, r)" by (cases x)
  show ?case using Cons.IH[OF wf_handle[OF Cons.prems]] by (simp add: x)
qed


lemma submit_review_general_irrelevant:
  assumes ok: "snd (submit_review d u p now) = [Success m]" and g': "float_in_range g'"
  shows "submit_review d u (p\<lparr>p_general_rating := Parsed g'\<rparr>) now = submit_review d u p now"
proof -
  from submit_review_success[OF ok] obtain w c n g loc where
    v: "p_wifi_rating p = Parsed w" "p_cleanliness_rating p = Parsed c"
       "p_noise_rating p = Parsed n" "p_general_rating p = Parsed g"
       "1 \<le> w \<and> w \<le> 10 \<and> 1 \<le> c \<and> c \<le> 10 \<and> 1 \<le> n \<and> n \<le> 10 \<and> float_in_range g"
       "p_crowd_level p \<noteq> []" "p_location_id p \<noteq> []"
       "get_object (\<lambda>l. location_id l = p_location_id p) (locations d) = Some loc"
    by blast
  show ?thesis
    using v g' by (simp add: submit_review_def location_review_save_def split: list.splits)
qed

lemma get_object_mem: "get_object P xs = Some x \<Longrightarrow> x \<in> set xs \<and> P x"
proof -
  assume "get_object P xs = Some x"
  then have "filter P xs = [x]" by (simp add: get_object_def split: list.splits)
  then have "x \<in> set (filter P xs)" by simp
  then show "x \<in> set xs \<and> P x" by simp
qed

lemma event_save_inv_id: "event_inv e \<Longrightarrow> event_save e = e"
  by (auto simp: event_inv_def event_save_def)

lemma event_save_organizer:
  "organizer e \<noteq> 0 \<Longrightarrow> organizer e \<in> set (participant_user_ids (event_save e))"
  by (simp add: event_save_def)

lemma events_log_activity [simp]: "events (log_activity u e k now d) = events d"
  by (simp add: log_activity_def)

lemma events_sweep [simp]: "events (sweep_expired d now) = events d"
  and activities_sweep [simp]: "activities (sweep_expired d now) = activities d"
  by (simp_all add: sweep_expired_def)

lemma inv_update_event:
  "list_all event_inv (events d) \<Longrightarrow> event_inv e \<Longrightarrow> list_all event_inv (events (update_event e d))"
  by (auto simp: update_event_def list_all_iff)

lemma inv_insert_event:
  "list_all event_inv (events d) \<Longrightarrow> event_inv e \<Longrightarrow> list_all event_inv (events (insert_event e d))"
  by (auto simp: insert_event_def list_all_iff event_inv_def)

lemma inv_create_event:
  assumes "list_all event_inv (events d)"
  shows "list_all event_inv (events (fst (create_event d u p now)))"
proof -
  have new: "event_inv (event_save \<lparr>event_id = i, organizer = u, ev_location = l, event_type = ty,
        event_title = ti, event_description = de, event_start = s, event_end = en,
        max_participants = mx, current_participants = 1, participant_user_ids = [u],
        ev_status = st, ev_created_at = now, requires_approval = False, is_started = False,
        started_at = None, invited_user_ids = [], is_public = False\<rparr>)"
    for i l ty ti de s en mx st
    by (simp add: event_save_def event_inv_def)
  show ?thesis
    using assms inv_insert_event[OF assms new]
    by (simp add: create_event_def Let_def split: option.splits prod.splits)
qed

lemma inv_start_event:
  assumes "list_all event_inv (events d)"
  shows "list_all event_inv (events (fst (start_event d u eid now)))"
proof (cases "get_object (\<lambda>e. event_id e = eid \<and> organizer e = u) (events d)")
  case None
  then show ?thesis using assms by (simp add: start_event_def)
next
  case (Some e)
  then have "event_inv e" using get_object_mem[OF Some] assms by (simp add: list_all_iff)
  then have "event_inv (event_save (e\<lparr>is_started := True, started_at := Some now\<rparr>))"
    by (simp add: event_save_def event_inv_def)
  from inv_update_event[OF assms this] show ?thesis using Some assms
    by (simp add: start_event_def)
qed

lemma inv_join_event:
  assumes "list_all event_inv (events d)"
  shows "list_all event_inv (events (fst (join_event d u eid now)))"
proof (cases "get_object (\<lambda>e. event_id e = eid) (events d)")
  case None
  then show ?thesis using assms by (simp add: join_event_def)
next
  case (Some e)
  then have "event_inv e" using get_object_mem[OF Some] assms by (simp add: list_all_iff)
  then have "event_inv (event_save (e\<lparr>participant_user_ids := participant_user_ids e @ [u],
      current_participants := int (length (participant_user_ids e @ [u]))\<rparr>))"
    by (simp add: event_save_def event_inv_def)
  from inv_update_event[OF assms this] show ?thesis using Some assms
    by (simp add: join_event_def Let_def)
qed

lemma inv_leave_event:
  assumes "list_all event_inv (events d)"
  shows "list_all event_inv (events (fst (leave_event d u eid now)))"
proof (cases "get_object (\<lambda>e. event_id e = eid) (events d)")
  case None
  then show ?thesis using assms by (simp add: leave_event_def)
next
  case (Some e)
  then have inv: "event_inv e" using get_object_mem[OF Some] assms by (simp add: list_all_iff)
  show ?thesis
  proof (cases "organizer e = u")
    case True
    then show ?thesis using Some assms by (simp add: leave_event_def)
  next
    case False
    with inv have "event_inv (event_save (e\<lparr>participant_user_ids := remove1 u (participant_user_ids e),
      current_participants := int (length (remove1 u (participant_user_ids e)))\<rparr>))"
      by (simp add: event_save_def event_inv_def)
    from inv_update_event[OF assms this] show ?thesis using Some assms
      by (simp add: leave_event_def Let_def)
  qed
qed

lemma inv_cancel_event:
  assumes "list_all event_inv (events d)"
  shows "list_all event_inv (events (fst (cancel_event d u eid now)))"
proof (cases "get_object (\<lambda>e. event_id e = eid \<and> organizer e = u) (events d)")
  case None
  then show ?thesis using assms by (simp add: cancel_event_def)
next
  case (Some e)
  then have "event_inv e" using get_object_mem[OF Some] assms by (simp add: list_all_iff)
  then have new: "event_inv (event_save (e\<lparr>ev_status := ''cancelled''\<rparr>))"
    by (simp add: event_save_def event_inv_def)
  have "list_all event_inv (events (log_activity u (event_id e) ''cancelled'' now d))"
    using assms by simp
  from inv_update_event[OF this new] show ?thesis using Some
    by (simp add: cancel_event_def)
qed


lemma events_prims [simp]:
  "events (deactivate_shares u d) = events d"
  "events (update_active_users_count lid now d) = events d"
  "events (update_location_crowd_level lid now d) = events d"
  "events (update_review r d) = events d"
  "events (insert_review r d) = events d"
  "events (friendship_save f d) = events d"
  "events (friendship_delete f d) = events d"
  "events (memory_save_is_archived m d) = events d"
  by (simp_all add: deactivate_shares_def update_active_users_count_def
        update_location_crowd_level_def update_review_def insert_review_def
        friendship_save_def friendship_delete_def memory_save_is_archived_def Let_def
        split: list.splits)

lemma events_share_location: "events (fst (share_location d u lid msg now)) = events d"
  by (simp add: share_location_def Let_def split: list.splits)

lemma events_stop_sharing: "events (fst (stop_sharing d u now)) = events d"
proof (cases "order_by_desc shared_at
              (filter (\<lambda>s. shr_user s = u \<and> is_active s = True \<and>
                            expires_at s > now) (location_shares d))")
  case Nil
  then show ?thesis unfolding stop_sharing_def Let_def by simp
next
  case (Cons a list)
  then show ?thesis unfolding stop_sharing_def Let_def by simp
qed

lemma events_submit_review: "events (fst (submit_review d u p now)) = events d"
  by (simp add: submit_review_def split: option.splits prod.splits list.splits)

lemma events_send_friend_request: "events (fst (send_friend_request d u v now)) = events d"
  by (simp add: send_friend_request_def split: option.splits list.splits)

lemma events_respond: "events (fst (respond_friend_request d u f a now)) = events d"
  by (simp add: respond_friend_request_def split: option.splits)

lemma events_archive: "events (fst (archive_memory d u m)) = events d"
  by (simp add: archive_memory_def Let_def split: option.splits)

lemma inv_handle:
  assumes "list_all event_inv (events d)"
  shows "list_all event_inv (events (fst (handle d u now r)))"
proof -
  have sw: "list_all event_inv (events (sweep_expired d now))" using assms by simp
  show ?thesis
  proof (cases r)
    case (Share_location lid msg)
    then show ?thesis using sw by (simp add: events_share_location)
  next
    case Stop_sharing
    then show ?thesis using sw by (simp add: events_stop_sharing)
  next
    case (Submit_review p)
    then show ?thesis using sw by (simp add: events_submit_review)
  next
    case (Create_event p)
    then show ?thesis using inv_create_event[OF sw] by simp
  next
    case (Start_event e)
    then show ?thesis using inv_start_event[OF sw] by simp
  next
    case (Join_event e)
    then show ?thesis using inv_join_event[OF sw] by simp
  next
    case (Leave_event e)
    then show ?thesis using inv_leave_event[OF sw] by simp
  next
    case (Cancel_event e)
    then show ?thesis using inv_cancel_event[OF sw] by simp
  next
    case (Send_friend_request x)
    then show ?thesis using assms by (simp add: events_send_friend_request)
  next
    case (Respond_friend_request x y)
    then show ?thesis using assms by (simp add: events_respond)
  next
    case (Archive_memory x)
    then show ?thesis using assms by (simp add: events_archive)
  qed
qed

lemma inv_run: "list_all event_inv (events d) \<Longrightarrow> list_all event_inv (events (run d rs))"
proof (induction rs arbitrary: d)
  case Nil
  then show ?case by simp
next
  case (Cons x rs)
  obtain v now r where x: "x = (v, now, r)" by (cases x)
  show ?case using Cons.IH[OF inv_handle[OF Cons.prems]] by (simp add: x)
qed

lemma set_order_by_desc [simp]: "set (order_by_desc k xs) = set xs"
  by (simp add: order_by_desc_def)

lemma mset_order_by_desc [simp]: "mset (order_by_desc k xs) = mset xs"
  by (simp add: order_by_desc_def)

lemma sorted_order_by_desc: "sorted_wrt (\<lambda>a b. k a \<ge> k b) (order_by_desc k xs)"
proof -
  have "sorted (map k (sort_key k xs))" by simp
  then have "sorted_wrt (\<lambda>a b. k a \<le> k b) (sort_key k xs)" by (simp add: sorted_map)
  then have "sorted_wrt (\<lambda>a b. k b \<le> k a) (rev (sort_key k xs))" by (simp add: sorted_wrt_rev)
  then show ?thesis by (simp add: order_by_desc_def)
qed

lemma in_get_friends:
  "u \<in> set (get_friends d viewer) \<longleftrightarrow> u \<in> set (users d) \<and> are_friends d viewer u"
  by (auto simp: get_friends_def are_friends_def list_ex_iff)

lemma are_friends_sym: "are_friends d a b = are_friends d b a"
  by (auto simp: are_friends_def list_ex_iff)

lemma map_toggle_unique:
  assumes "distinct (map memory_id ms)" "m \<in> set ms"
  shows "map (\<lambda>r. if memory_id r = memory_id m then r\<lparr>is_archived := x\<rparr> else r) ms =
         map (\<lambda>r. if r = m then m\<lparr>is_archived := x\<rparr> else r) ms"
proof (rule map_cong[OF refl])
  fix r assume r: "r \<in> set ms"
  have "r = m" if "memory_id r = memory_id m"
    using assms r that by (meson distinct_map inj_onD)
  then show "(if memory_id r = memory_id m then r\<lparr>is_archived := x\<rparr> else r) =
             (if r = m then m\<lparr>is_archived := x\<rparr> else r)" by auto
qed

lemma filter_owner_toggle:
  "filter (\<lambda>r. memory_id r = mid \<and> mem_user r = u)
     (map (\<lambda>r. if memory_id r = k then r\<lparr>is_archived := x\<rparr> else r) ms) =
   map (\<lambda>r. if memory_id r = k then r\<lparr>is_archived := x\<rparr> else r)
     (filter (\<lambda>r. memory_id r = mid \<and> mem_user r = u) ms)"
  by (induction ms) auto

lemma map_toggle_twice:
  "map (\<lambda>r. if memory_id r = k then r\<lparr>is_archived := y\<rparr> else r)
     (map (\<lambda>r. if memory_id r = k then r\<lparr>is_archived := x\<rparr> else r) ms) =
   map (\<lambda>r. if memory_id r = k then r\<lparr>is_archived := y\<rparr> else r) ms"
  by (induction ms) auto

lemma archive_memory_found:
  assumes "get_object (\<lambda>r. memory_id r = mid \<and> mem_user r = u) (memories d) = Some m"
  shows "memories (fst (archive_memory d u mid)) =
           map (\<lambda>r. if memory_id r = memory_id m then r\<lparr>is_archived := \<not> is_archived m\<rparr> else r)
             (memories d)"
    and "snd (archive_memory d u mid) =
           [Success (if is_archived m then ''Memory restored'' else ''Memory archived'')]"
  using assms by (simp_all add: archive_memory_def Let_def memory_save_is_archived_def)

subsection \<open>The claims\<close>

text \<open>
  C1. A private memory is visible to its author and to nobody else, the anonymous
  viewer included; a friends-only memory is visible to a logged-in viewer exactly when
  the viewer is the author or a friend of the author; a public memory is visible to
  everybody; the anonymous viewer sees public memories only.
\<close>

theorem can_view_by_visibility:
  "(can_view d (m\<lparr>visibility := ''private''\<rparr>) v \<longleftrightarrow> v = User (mem_user m)) \<and>
   (can_view d (m\<lparr>visibility := ''friends''\<rparr>) (User u) \<longleftrightarrow>
      u = mem_user m \<or> are_friends d (mem_user m) u) \<and>
   can_view d (m\<lparr>visibility := ''public''\<rparr>) v \<and>
   (can_view d m AnonymousUser \<longleftrightarrow> visibility m = ''public'')"
  by (cases v) auto


theorem can_view_by_visibility_witness:
  "can_view d0 (m0\<lparr>visibility := ''private''\<rparr>) (User 1) \<and>
   \<not> can_view d0 (m0\<lparr>visibility := ''private''\<rparr>) (User 2) \<and>
   \<not> can_view d0 (m0\<lparr>visibility := ''private''\<rparr>) AnonymousUser \<and>
   \<not> can_view d0 m0 (User 2) \<and> \<not> can_view d0 m0 AnonymousUser"
  using can_view_by_visibility[of d0 m0 "User 1" 2] can_view_by_visibility[of d0 m0 "User 2" 2]
    can_view_by_visibility[of d0 m0 "AnonymousUser" 2]
  by (simp add: d0_def m0_def are_friends_def)

text \<open>
  C2. Where no relation between \<open>a\<close> and \<open>b\<close> exists, the request of \<open>a\<close> to
  \<open>b\<close> succeeds and gets the next key; once \<open>b\<close> accepts it, \<open>are_friends\<close> holds
  in both orders, and the one stored row between the two is the accepted row
  \<open>(a, b)\<close>. Keys handed out so far lie below the next key; \<open>b\<close> is a row of the
  User table, whose keys are distinct.
\<close>

theorem accept_makes_friends:
  assumes users: "distinct (users d)" "b \<in> set (users d)"
    and fresh: "\<forall>f\<in>set (friendships d). friendship_id f < next_friendship_id d"
    and norel: "\<forall>f\<in>set (friendships d). \<not> ((user1 f = a \<and> user2 f = b) \<or> (user1 f = b \<and> user2 f = a))"
  shows "(let r1 = send_friend_request d a b t1;
              r2 = respond_friend_request (fst r1) b (next_friendship_id d) ''accept'' t2
          in snd r1 = [Success ''Friend request sent''] \<and>
             snd r2 = [Success ''You are now friends''] \<and>
             are_friends (fst r2) a b \<and> are_friends (fst r2) b a \<and>
             filter (\<lambda>f. (user1 f = a \<and> user2 f = b) \<or> (user1 f = b \<and> user2 f = a))
                    (friendships (fst r2)) =
               [\<lparr>friendship_id = next_friendship_id d, user1 = a, user2 = b,
                 status = ''accepted'', fr_created_at = t1, accepted_at = Some t2\<rparr>])"
proof -
  let ?new = "\<lparr>friendship_id = next_friendship_id d, user1 = a, user2 = b, status = ''pending'',
               fr_created_at = t1, accepted_at = None\<rparr>"
  let ?d1 = "d\<lparr>friendships := friendships d @ [?new], next_friendship_id := Suc (next_friendship_id d)\<rparr>"
  have nofilter: "filter (\<lambda>f. (user1 f = a \<and> user2 f = b) \<or> (user1 f = b \<and> user2 f = a)) (friendships d) = []"
    using norel by (auto simp: filter_empty_conv)
  have s1: "send_friend_request d a b t1 = (?d1, [Success ''Friend request sent''])"
    using get_object_users[OF users] nofilter by (simp add: send_friend_request_def)
  have g: "get_object (\<lambda>f. friendship_id f = next_friendship_id d \<and> user2 f = b \<and> status f = ''pending'')
             (friendships ?d1) = Some ?new"
    using filter_fresh_none[OF fresh] by (simp add: get_object_def)
  let ?acc = "\<lparr>friendship_id = next_friendship_id d, user1 = a, user2 = b, status = ''accepted'',
               fr_created_at = t1, accepted_at = Some t2\<rparr>"
  let ?d2 = "friendship_save ?acc ?d1"
  have s2: "respond_friend_request ?d1 b (next_friendship_id d) ''accept'' t2 = (?d2, [Success ''You are now friends''])"
    using g by (simp add: respond_friend_request_def)
  have fs2: "friendships ?d2 = friendships d @ [?acc]"
    using map_fresh_id[OF fresh] by (simp add: friendship_save_def)
  have "are_friends ?d2 a b" "are_friends ?d2 b a"
    by (simp_all add: are_friends_def fs2)
  moreover have "filter (\<lambda>f. (user1 f = a \<and> user2 f = b) \<or> (user1 f = b \<and> user2 f = a)) (friendships ?d2) = [?acc]"
    using nofilter by (simp add: fs2)
  ultimately show ?thesis using s1 s2 by (simp add: Let_def)
qed

theorem accept_makes_friends_witness:
  "are_friends (fst (respond_friend_request (fst (send_friend_request d0 1 2 10)) 2 1 ''accept'' 20)) 1 2 \<and>
   are_friends (fst (respond_friend_request (fst (send_friend_request d0 1 2 10)) 2 1 ''accept'' 20)) 2 1"
  using accept_makes_friends[of d0 2 1 10 20] by (simp add: d0_def Let_def)

text \<open>
  C3. When a \<open>share_location\<close> request of user \<open>u\<close> completes, the rows of \<open>u\<close>
  with the active flag set are exactly the one new row, whose expiry is four hours after
  the request; and after any further requests, of any users at any times, at most one
  row of \<open>u\<close> is active with an expiry later than an observation time \<open>t\<close>.
\<close>

theorem share_location_single_active:
  assumes completed: "snd (dashboard d u now (Share_location lid msg)) = [Success ''Location shared'']"
  shows "filter (\<lambda>s. shr_user s = u \<and> is_active s = True)
           (location_shares (fst (dashboard d u now (Share_location lid msg)))) =
           [\<lparr>share_id = next_share_id d, shr_user = u, shr_location = lid, shared_at = now,
             expires_at = now + timedelta_hours 4, is_active = True,
             shr_visibility = ''all_friends'', status_message = msg,
             share_type = ''check_in''\<rparr>] \<and>
         length (filter (\<lambda>s. shr_user s = u \<and> is_active s = True \<and> expires_at s > t)
           (location_shares (run (fst (dashboard d u now (Share_location lid msg))) rs))) \<le> 1"
proof -
  let ?d0 = "sweep_expired d now"
  let ?d1 = "fst (share_location ?d0 u lid msg now)"
  have ok: "lid \<noteq> [] \<and> (\<exists>loc. filter (\<lambda>l. location_id l = lid) (locations ?d0) = [loc])"
    using share_location_fail(2)[of lid ?d0 u msg now] completed by auto
  then obtain loc where loc: "lid \<noteq> []" "filter (\<lambda>l. location_id l = lid) (locations ?d0) = [loc]"
    by blast
  have lid: "location_id loc = lid" using filter_singleton_holds[OF loc(2)] .
  have sh: "location_shares ?d1 = location_shares (deactivate_shares u ?d0) @ [new_share ?d0 u lid msg now]"
    using share_location_ok(2)[OF loc, of u msg now] lid by simp
  have act: "active_shares u ?d1 = [new_share ?d0 u lid msg now]"
    using active_shares_append[OF sh, of u] active_deactivate_self[of u ?d0]
    by (simp add: new_share_def)
  have first: "filter (\<lambda>s. shr_user s = u \<and> is_active s = True) (location_shares ?d1) =
           [\<lparr>share_id = next_share_id d, shr_user = u, shr_location = lid, shared_at = now,
             expires_at = now + timedelta_hours 4, is_active = True,
             shr_visibility = ''all_friends'', status_message = msg,
             share_type = ''check_in''\<rparr>]"
    using act by (simp add: active_shares_def new_share_def)
  have "length (active_shares u ?d1) \<le> 1" using act by simp
  then have "length (active_shares u (run ?d1 rs)) \<le> 1" by (rule active_run)
  then have second: "length (filter (\<lambda>s. shr_user s = u \<and> is_active s = True \<and> expires_at s > t)
           (location_shares (run ?d1 rs))) \<le> 1"
    using filter_extra_le[of "\<lambda>s. shr_user s = u \<and> is_active s" "\<lambda>s. expires_at s > t" "location_shares (run ?d1 rs)"]
    by (simp add: active_shares_def conj_assoc)
  show ?thesis using first second by simp
qed

theorem share_location_single_active_witness:
  "snd (dashboard d0 1 100 (Share_location ''P01_A'' ''studying'')) = [Success ''Location shared''] \<and>
   length (filter (\<lambda>s. shr_user s = 1 \<and> is_active s = True \<and> expires_at s > 300)
     (location_shares (run (fst (dashboard d0 1 100 (Share_location ''P01_A'' ''studying'')))
        [(1, 200, Share_location ''P01_A'' ''busy''), (2, 250, Stop_sharing)]))) \<le> 1"
proof -
  have c: "snd (dashboard d0 1 100 (Share_location ''P01_A'' ''studying'')) =
             [Success ''Location shared'']"
    by (simp add: d0_def sweep_expired_def share_location_def Let_def)
  show ?thesis
    using c share_location_single_active[OF c, of 300
        "[(1, 200, Share_location ''P01_A'' ''busy''), (2, 250, Stop_sharing)]"]
    by simp
qed

text \<open>
  C4. On a review table that satisfies the database's constraints, when user \<open>u\<close>
  submits a review for a location and then a second one for the same location, and both
  go through, the second is reported as an update, the table has as many rows as after
  the first, the one row of \<open>u\<close> for the location keeps its key and carries the
  sub-ratings, crowd level and text of the second form; and after any history of
  requests no two rows share user and location.
\<close>

theorem submit_review_upsert:
  assumes wf: "wf_reviews d"
    and s1: "snd (dashboard d u t1 (Submit_review p1)) = [Success m1]"
    and s2: "snd (dashboard (fst (dashboard d u t1 (Submit_review p1))) u t2 (Submit_review p2)) =
               [Success m2]"
    and same: "p_location_id p2 = p_location_id p1"
  shows "m2 = ''Review updated'' \<and>
         length (reviews (fst (dashboard (fst (dashboard d u t1 (Submit_review p1))) u t2
                   (Submit_review p2)))) =
           length (reviews (fst (dashboard d u t1 (Submit_review p1)))) \<and>
         (\<exists>r1 r2.
            reviews_of u (p_location_id p1) (fst (dashboard d u t1 (Submit_review p1))) = [r1] \<and>
            reviews_of u (p_location_id p1)
              (fst (dashboard (fst (dashboard d u t1 (Submit_review p1))) u t2
                 (Submit_review p2))) = [r2] \<and>
            review_id r2 = review_id r1 \<and>
            p_wifi_rating p2 = Parsed (wifi_rating r2) \<and>
            p_cleanliness_rating p2 = Parsed (cleanliness_rating r2) \<and>
            p_noise_rating p2 = Parsed (noise_rating r2) \<and>
            crowd_level r2 = p_crowd_level p2 \<and>
            review_text r2 = strip (p_review_text p2)) \<and>
         distinct (map (\<lambda>r. (rev_user r, rev_location r)) (reviews (run d rs)))"
proof -
  let ?d0 = "sweep_expired d t1"
  let ?d1 = "fst (submit_review ?d0 u p1 t1)"
  let ?d1' = "sweep_expired ?d1 t2"
  let ?d2 = "fst (submit_review ?d1' u p2 t2)"
  have wf0: "wf_reviews ?d0" using wf same_reviews_wf[OF same_reviews_prims(1), of d t1] by simp
  have ok1: "snd (submit_review ?d0 u p1 t1) = [Success m1]" using s1 by simp
  from submit_review_written[OF wf0 ok1] obtain r1 where
    wf1: "wf_reviews ?d1" and r1: "reviews_of u (p_location_id p1) ?d1 = [r1]"
    by blast
  have wf1': "wf_reviews ?d1'"
    using wf1 same_reviews_wf[OF same_reviews_prims(1), of ?d1 t2] by simp
  have r1': "reviews_of u (p_location_id p2) ?d1' = [r1]"
    using r1 same by (simp add: reviews_of_def)
  have ok2: "snd (submit_review ?d1' u p2 t2) = [Success m2]" using s2 by simp
  from submit_review_written[OF wf1' ok2] r1' obtain r2 where
    r2: "reviews_of u (p_location_id p2) ?d2 = [r2]" and hp: "holds_post p2 t2 r2"
    and upd: "m2 = ''Review updated''" "review_id r2 = review_id r1"
      "length (reviews ?d2) = length (reviews ?d1')"
    by blast
  have inv: "distinct (map (\<lambda>r. (rev_user r, rev_location r)) (reviews (run d rs)))"
    using wf_run[OF wf, of rs] by (simp add: wf_reviews_def)
  have "reviews_of u (p_location_id p1) ?d1 = [r1] \<and>
        reviews_of u (p_location_id p1) ?d2 = [r2] \<and>
        review_id r2 = review_id r1 \<and>
        p_wifi_rating p2 = Parsed (wifi_rating r2) \<and>
        p_cleanliness_rating p2 = Parsed (cleanliness_rating r2) \<and>
        p_noise_rating p2 = Parsed (noise_rating r2) \<and>
        crowd_level r2 = p_crowd_level p2 \<and>
        review_text r2 = strip (p_review_text p2)"
    using r1 r2 upd(2) hp same by (simp add: holds_post_def)
  then have ex: "\<exists>r1 r2. reviews_of u (p_location_id p1) ?d1 = [r1] \<and>
        reviews_of u (p_location_id p1) ?d2 = [r2] \<and>
        review_id r2 = review_id r1 \<and>
        p_wifi_rating p2 = Parsed (wifi_rating r2) \<and>
        p_cleanliness_rating p2 = Parsed (cleanliness_rating r2) \<and>
        p_noise_rating p2 = Parsed (noise_rating r2) \<and>
        crowd_level r2 = p_crowd_level p2 \<and>
        review_text r2 = strip (p_review_text p2)"
    by blast
  show ?thesis using upd(1) upd(3) ex inv by simp
qed

theorem submit_review_upsert_witness:
  "wf_reviews d0 \<and>
   snd (dashboard d0 1 100 (Submit_review post1)) = [Success ''Review submitted''] \<and>
   snd (dashboard (fst (dashboard d0 1 100 (Submit_review post1))) 1 200 (Submit_review post2)) =
     [Success ''Review updated''] \<and>
   length (reviews (fst (dashboard (fst (dashboard d0 1 100 (Submit_review post1))) 1 200
             (Submit_review post2)))) =
     length (reviews (fst (dashboard d0 1 100 (Submit_review post1))))"
proof -
  have w: "wf_reviews d0" by (simp add: wf_reviews_def d0_def)
  have h1: "snd (dashboard d0 1 100 (Submit_review post1)) = [Success ''Review submitted'']"
    by code_simp
  have h2: "snd (dashboard (fst (dashboard d0 1 100 (Submit_review post1))) 1 200
              (Submit_review post2)) = [Success ''Review updated'']"
    by code_simp
  have same: "p_location_id post2 = p_location_id post1" by (simp add: post1_def post2_def)
  from submit_review_upsert[OF w h1 h2 same, of "[]"] w h1 h2 show ?thesis by blast
qed

text \<open>
  C9. When a review submission goes through, as an insert or as an update of the
  existing row, the stored row of the user for the location has the sub-ratings of the
  form, and its general rating is \<open>round1\<close> of their mean: the multiple of one tenth
  nearest to the mean, which is never a tie for three integers. The general rating sent
  with the form has no effect on the store.
\<close>

theorem submit_review_general_rating:
  assumes wf: "wf_reviews d"
    and ok: "snd (dashboard d u now (Submit_review p)) = [Success m]"
  shows "(\<exists>r. reviews_of u (p_location_id p) (fst (dashboard d u now (Submit_review p))) = [r] \<and>
            p_wifi_rating p = Parsed (wifi_rating r) \<and>
            p_cleanliness_rating p = Parsed (cleanliness_rating r) \<and>
            p_noise_rating p = Parsed (noise_rating r) \<and>
            general_rating r = Finite (round1 (mean_rating r)) \<and>
            \<bar>round1 (mean_rating r) - mean_rating r\<bar> < 1 / 20 \<and>
            round1 (mean_rating r) =
              of_int ((10 * (wifi_rating r + cleanliness_rating r + noise_rating r) + 1) div 3) / 10) \<and>
         (float_in_range g' \<longrightarrow>
            dashboard d u now (Submit_review (p\<lparr>p_general_rating := Parsed g'\<rparr>)) =
            dashboard d u now (Submit_review p))"
proof -
  let ?d0 = "sweep_expired d now"
  have wf0: "wf_reviews ?d0" using wf same_reviews_wf[OF same_reviews_prims(1), of d now] by simp
  have ok0: "snd (submit_review ?d0 u p now) = [Success m]" using ok by simp
  from submit_review_written[OF wf0 ok0] obtain r where
    r: "reviews_of u (p_location_id p) (fst (submit_review ?d0 u p now)) = [r]"
    and hp: "holds_post p now r"
    by blast
  have near: "\<bar>round1 (mean_rating r) - mean_rating r\<bar> < 1 / 20"
    unfolding mean_rating_def by (rule round1_third_near)
  have closed: "round1 (mean_rating r) =
      of_int ((10 * (wifi_rating r + cleanliness_rating r + noise_rating r) + 1) div 3) / 10"
    unfolding mean_rating_def by (rule round1_third)
  have r': "reviews_of u (p_location_id p) (fst (dashboard d u now (Submit_review p))) = [r]"
    using r by simp
  have f: "p_wifi_rating p = Parsed (wifi_rating r)"
    "p_cleanliness_rating p = Parsed (cleanliness_rating r)"
    "p_noise_rating p = Parsed (noise_rating r)"
    "general_rating r = Finite (round1 (mean_rating r))"
    using hp by (simp_all add: holds_post_def)
  have ex: "\<exists>r. reviews_of u (p_location_id p) (fst (dashboard d u now (Submit_review p))) = [r] \<and>
            p_wifi_rating p = Parsed (wifi_rating r) \<and>
            p_cleanliness_rating p = Parsed (cleanliness_rating r) \<and>
            p_noise_rating p = Parsed (noise_rating r) \<and>
            general_rating r = Finite (round1 (mean_rating r)) \<and>
            \<bar>round1 (mean_rating r) - mean_rating r\<bar> < 1 / 20 \<and>
            round1 (mean_rating r) =
              of_int ((10 * (wifi_rating r + cleanliness_rating r + noise_rating r) + 1) div 3) / 10"
    by (rule exI[of _ r]) (intro conjI r' f near closed)
  have ind: "float_in_range g' \<longrightarrow>
            dashboard d u now (Submit_review (p\<lparr>p_general_rating := Parsed g'\<rparr>)) =
            dashboard d u now (Submit_review p)"
    using submit_review_general_irrelevant[OF ok0, of g'] by simp
  show ?thesis using ex ind by blast
qed

theorem submit_review_general_rating_witness:
  "wf_reviews d0 \<and>
   snd (dashboard d0 1 100 (Submit_review post1)) = [Success ''Review submitted''] \<and>
   map general_rating (reviews (fst (dashboard d0 1 100 (Submit_review post1)))) =
     [Finite (67 / 10)] \<and>
   dashboard d0 1 100 (Submit_review (post1\<lparr>p_general_rating := Parsed (Finite 9)\<rparr>)) =
     dashboard d0 1 100 (Submit_review post1)"
proof -
  have w: "wf_reviews d0" by (simp add: wf_reviews_def d0_def)
  have h1: "snd (dashboard d0 1 100 (Submit_review post1)) = [Success ''Review submitted'']"
    by code_simp
  have h3: "map general_rating (reviews (fst (dashboard d0 1 100 (Submit_review post1)))) =
              [Finite (67 / 10)]"
    by code_simp
  have g: "float_in_range (Finite 9)" by simp
  from submit_review_general_rating[OF w h1, of "Finite 9"] g w h1 h3 show ?thesis by blast
qed

text \<open>
  C5. For an event found by its key: a user who is not on the roster and asks to join
  when the roster is as long as \<open>max_participants\<close> or longer gets the error
  ``Event is full'', and neither the event table (roster, count) nor the activity log
  changes; a user who is on the roster gets the notice that they already participate,
  whatever the capacity, and nothing changes either.
\<close>

theorem join_event_at_capacity:
  assumes ev: "get_object (\<lambda>e. event_id e = eid) (events d) = Some e"
  shows "(u \<notin> set (participant_user_ids e) \<and>
          max_participants e \<le> int (length (participant_user_ids e)) \<longrightarrow>
            snd (dashboard d u now (Join_event eid)) = [Error ''Event is full''] \<and>
            events (fst (dashboard d u now (Join_event eid))) = events d \<and>
            activities (fst (dashboard d u now (Join_event eid))) = activities d) \<and>
         (u \<in> set (participant_user_ids e) \<longrightarrow>
            snd (dashboard d u now (Join_event eid)) =
              [Info ''You are already participating in this event''] \<and>
            events (fst (dashboard d u now (Join_event eid))) = events d \<and>
            activities (fst (dashboard d u now (Join_event eid))) = activities d)"
  using ev by (simp add: join_event_def can_join_def get_current_participants_def)

theorem join_event_at_capacity_witness:
  "snd (dashboard d_full 3 30 (Join_event 1)) = [Error ''Event is full''] \<and>
   events (fst (dashboard d_full 3 30 (Join_event 1))) = events d_full \<and>
   snd (dashboard d_full 2 30 (Join_event 1)) = [Info ''You are already participating in this event'']"
proof -
  let ?e = "hd (events d_full)"
  have g: "get_object (\<lambda>e. event_id e = 1) (events d_full) = Some ?e" by code_simp
  have r: "participant_user_ids ?e = [1, 2]" "max_participants ?e = 2" by code_simp+
  from join_event_at_capacity[OF g, of 3 30] join_event_at_capacity[OF g, of 2 30] r
  show ?thesis by simp
qed

text \<open>
  C6. Starting from a store whose events satisfy the roster invariant (an empty event
  table does), after any history of requests every event has its organizer on the roster
  and a stored count equal to the roster's length; a request of the organizer to leave
  an event is refused with an error and changes neither the events nor the log; and
  \<open>Event.save\<close> puts an organizer with a non-zero key on the roster.
\<close>

theorem organizer_always_participant:
  assumes init: "list_all event_inv (events d)"
  shows "(\<forall>e\<in>set (events (run d rs)).
            organizer e \<in> set (participant_user_ids e) \<and>
            current_participants e = int (length (participant_user_ids e))) \<and>
         (\<forall>e. get_object (\<lambda>x. event_id x = eid) (events (run d rs)) = Some e \<longrightarrow>
            snd (dashboard (run d rs) (organizer e) now (Leave_event eid)) =
              [Error ''Event organizer cannot leave. Cancel the event instead.''] \<and>
            events (fst (dashboard (run d rs) (organizer e) now (Leave_event eid))) =
              events (run d rs) \<and>
            activities (fst (dashboard (run d rs) (organizer e) now (Leave_event eid))) =
              activities (run d rs)) \<and>
         (organizer ev \<noteq> 0 \<longrightarrow> organizer ev \<in> set (participant_user_ids (event_save ev)))"
proof -
  have inv: "list_all event_inv (events (run d rs))" using init by (rule inv_run)
  then have a: "\<forall>e\<in>set (events (run d rs)).
            organizer e \<in> set (participant_user_ids e) \<and>
            current_participants e = int (length (participant_user_ids e))"
    by (simp add: list_all_iff event_inv_def)
  have b: "snd (dashboard (run d rs) (organizer e) now (Leave_event eid)) =
              [Error ''Event organizer cannot leave. Cancel the event instead.''] \<and>
            events (fst (dashboard (run d rs) (organizer e) now (Leave_event eid))) =
              events (run d rs) \<and>
            activities (fst (dashboard (run d rs) (organizer e) now (Leave_event eid))) =
              activities (run d rs)"
    if g: "get_object (\<lambda>x. event_id x = eid) (events (run d rs)) = Some e" for e
  proof -
    have "e \<in> set (events (run d rs))" using get_object_mem[OF g] by simp
    then have "organizer e \<in> set (participant_user_ids e)" using a by simp
    then show ?thesis using g by (simp add: leave_event_def)
  qed
  have c: "organizer ev \<noteq> 0 \<longrightarrow> organizer ev \<in> set (participant_user_ids (event_save ev))"
    by (simp add: event_save_organizer)
  show ?thesis using a b c by blast
qed

theorem organizer_always_participant_witness:
  "list_all event_inv (events d0) \<and>
   list_all (\<lambda>e. organizer e \<in> set (participant_user_ids e) \<and>
                   current_participants e = int (length (participant_user_ids e)))
     (events d_full) \<and>
   map participant_user_ids (events d_full) = [[1, 2]] \<and>
   snd (dashboard d_full 1 30 (Leave_event 1)) =
     [Error ''Event organizer cannot leave. Cancel the event instead.''] \<and>
   organizer (hd (events d_full)) \<in> set (participant_user_ids (event_save (hd (events d_full))))"
proof -
  let ?e = "hd (events d_full)"
  have i: "list_all event_inv (events d0)" by (simp add: d0_def)
  have g: "get_object (\<lambda>x. event_id x = 1) (events d_full) = Some ?e" by code_simp
  have o: "organizer ?e = 1" by code_simp
  have p: "map participant_user_ids (events d_full) = [[1, 2]]" by code_simp
  from organizer_always_participant[OF i,
      of "[(1, 10, Create_event ev_post), (2, 20, Join_event 1)]" 1 30 ?e] g o i p
  show ?thesis unfolding d_full_def by (simp add: list_all_iff)
qed

text \<open>
  C7. A share whose expiry is four hours after \<open>t0\<close>, observed at a time later than
  that expiry, is not among the rows the friends' feed query returns, on any store and
  for any viewer, whichever value its stored flag has and whether or not a sweep has run:
  every row the query returns is flagged active and expires later than the observation.
  The same holds of the dashboard, which sweeps first, at whatever time the sweep reads
  the clock; and the sweep leaves no row flagged active that has expired by then.
\<close>

theorem expired_share_not_in_feed:
  assumes "expires_at s = t0 + timedelta_hours 4" and "t0 + timedelta_hours 4 < now"
  shows "s\<lparr>is_active := b\<rparr> \<notin> set (friends_recent_shares d viewer now_cutoff now) \<and>
         (\<forall>r\<in>set (friends_recent_shares d viewer now_cutoff now).
            expires_at r > now \<and> is_active r) \<and>
         s\<lparr>is_active := b\<rparr> \<notin>
           set (snd (dashboard_get_shares d viewer now_sweep now_cutoff now)) \<and>
         (\<forall>r\<in>set (snd (dashboard_get_shares d viewer now_sweep now_cutoff now)).
            expires_at r > now \<and> is_active r) \<and>
         (\<forall>r\<in>set (location_shares (fst (dashboard_get_shares d viewer now_sweep now_cutoff now))).
            expires_at r \<le> now_sweep \<longrightarrow> \<not> is_active r)"
proof -
  have query: "expires_at r > now \<and> is_active r"
    if "r \<in> set (friends_recent_shares d' viewer now_cutoff now)" for r d'
  proof -
    from that have "r \<in> set (take 20 (order_by_desc shared_at
           (filter (\<lambda>s. shr_user s \<in> set (get_friends d' viewer) \<and>
                         is_active s = True \<and> expires_at s > now \<and>
                         shared_at s \<ge> now_cutoff - timedelta_hours 24)
                   (location_shares d'))))"
      by (simp add: friends_recent_shares_def Let_def)
    then have "r \<in> set (order_by_desc shared_at
           (filter (\<lambda>s. shr_user s \<in> set (get_friends d' viewer) \<and>
                         is_active s = True \<and> expires_at s > now \<and>
                         shared_at s \<ge> now_cutoff - timedelta_hours 24)
                   (location_shares d')))"
      by (rule in_set_takeD)
    then show ?thesis by simp
  qed
  have snd_eq: "snd (dashboard_get_shares d viewer now_sweep now_cutoff now) =
                friends_recent_shares (sweep_expired d now_sweep) viewer now_cutoff now"
    by (simp add: dashboard_get_shares_def Let_def)
  have a: "s\<lparr>is_active := b\<rparr> \<notin> set (friends_recent_shares d' viewer now_cutoff now)" for d'
  proof
    assume "s\<lparr>is_active := b\<rparr> \<in> set (friends_recent_shares d' viewer now_cutoff now)"
    from query[OF this] assms show False by simp
  qed
  have a1: "s\<lparr>is_active := b\<rparr> \<notin> set (friends_recent_shares d viewer now_cutoff now)"
    by (rule a)
  have a2: "s\<lparr>is_active := b\<rparr> \<notin>
              set (snd (dashboard_get_shares d viewer now_sweep now_cutoff now))"
    unfolding snd_eq by (rule a)
  have q1: "\<forall>r\<in>set (friends_recent_shares d viewer now_cutoff now).
              expires_at r > now \<and> is_active r"
    using query by blast
  have q2: "\<forall>r\<in>set (snd (dashboard_get_shares d viewer now_sweep now_cutoff now)).
              expires_at r > now \<and> is_active r"
    unfolding snd_eq using query by blast
  have c: "\<forall>r\<in>set (location_shares (fst (dashboard_get_shares d viewer now_sweep now_cutoff now))).
            expires_at r \<le> now_sweep \<longrightarrow> \<not> is_active r"
    by (auto simp: dashboard_get_shares_def sweep_expired_def Let_def)
  show ?thesis using a1 q1 a2 q2 c by blast
qed

theorem expired_share_not_in_feed_witness:
  "expires_at (hd (location_shares d_share)) = 10 + timedelta_hours 4 \<and>
   is_active (hd (location_shares d_share)) \<and>
   hd (location_shares d_share) \<in>
     set (friends_recent_shares d_share 2 (10 + timedelta_hours 1) (10 + timedelta_hours 1)) \<and>
   hd (location_shares d_share) \<notin>
     set (friends_recent_shares d_share 2 (10 + timedelta_hours 5) (10 + timedelta_hours 5)) \<and>
   hd (location_shares d_share) \<notin>
     set (snd (dashboard_get_shares d_share 2 (10 + timedelta_hours 3)
                 (10 + timedelta_hours 5) (10 + timedelta_hours 5)))"
proof -
  let ?s = "hd (location_shares d_share)"
  have e: "expires_at ?s = 10 + timedelta_hours 4" by code_simp
  have f: "is_active ?s" by code_simp
  have l: "10 + timedelta_hours 4 < 10 + timedelta_hours 5" by (simp add: timedelta_hours_def)
  have v: "?s \<in> set (friends_recent_shares d_share 2 (10 + timedelta_hours 1)
                        (10 + timedelta_hours 1))" by code_simp
  have same: "?s\<lparr>is_active := True\<rparr> = ?s" using f by simp
  from expired_share_not_in_feed[OF e l, of True d_share 2 "10 + timedelta_hours 5"
         "10 + timedelta_hours 3"] e f v
  show ?thesis unfolding same by blast
qed

text \<open>
  C8. Where every memory's author is a row of the User table, the memories feed of a
  viewer holds exactly the memories in the union of the public non-archived ones, the
  friends-only non-archived ones whose author is the viewer or a friend of the viewer,
  and the private ones of the viewer, with the archived ones left out; each such row
  occurs once; and the feed is ordered by creation date, newest first.
\<close>

theorem memories_feed_exact:
  assumes fk: "\<forall>m\<in>set (memories d). mem_user m \<in> set (users d)"
  shows "set (memories_feed d viewer) =
           ({m \<in> set (memories d). visibility m = ''public'' \<and> \<not> is_archived m} \<union>
            {m \<in> set (memories d). visibility m = ''friends'' \<and> \<not> is_archived m \<and>
               (mem_user m = viewer \<or> are_friends d (mem_user m) viewer)} \<union>
            {m \<in> set (memories d). visibility m = ''private'' \<and> mem_user m = viewer})
           - {m. is_archived m} \<and>
         mset (memories_feed d viewer) =
           mset (filter (\<lambda>m. \<not> is_archived m \<and>
                   (visibility m = ''public'' \<or>
                    (visibility m = ''friends'' \<and>
                       (mem_user m = viewer \<or> are_friends d (mem_user m) viewer)) \<or>
                    (visibility m = ''private'' \<and> mem_user m = viewer))) (memories d)) \<and>
         sorted_wrt (\<lambda>a b. creation_date a \<ge> creation_date b) (memories_feed d viewer)"
proof -
  have fr: "mem_user m \<in> set (get_friends d viewer) \<longleftrightarrow> are_friends d (mem_user m) viewer"
    if "m \<in> set (memories d)" for m
    using fk that in_get_friends[of "mem_user m" d viewer] are_friends_sym[of d viewer "mem_user m"]
    by auto
  have s: "set (memories_feed d viewer) =
           ({m \<in> set (memories d). visibility m = ''public'' \<and> \<not> is_archived m} \<union>
            {m \<in> set (memories d). visibility m = ''friends'' \<and> \<not> is_archived m \<and>
               (mem_user m = viewer \<or> are_friends d (mem_user m) viewer)} \<union>
            {m \<in> set (memories d). visibility m = ''private'' \<and> mem_user m = viewer})
           - {m. is_archived m}"
    using fr by (auto simp: memories_feed_def get_visible_memories_def Let_def)
  have eq: "filter (\<lambda>m. is_archived m = False)
          (filter (\<lambda>m. visibility m = ''public'' \<or>
                         (visibility m = ''friends'' \<and> mem_user m \<in> set (get_friends d viewer)) \<or>
                         (visibility m = ''friends'' \<and> mem_user m = viewer) \<or>
                         (visibility m = ''private'' \<and> mem_user m = viewer)) (memories d)) =
        filter (\<lambda>m. \<not> is_archived m \<and>
                   (visibility m = ''public'' \<or>
                    (visibility m = ''friends'' \<and>
                       (mem_user m = viewer \<or> are_friends d (mem_user m) viewer)) \<or>
                    (visibility m = ''private'' \<and> mem_user m = viewer))) (memories d)"
    unfolding filter_filter using fr by (intro filter_cong) auto
  have "mset (memories_feed d viewer) =
        mset (filter (\<lambda>m. is_archived m = False)
          (filter (\<lambda>m. visibility m = ''public'' \<or>
                         (visibility m = ''friends'' \<and> mem_user m \<in> set (get_friends d viewer)) \<or>
                         (visibility m = ''friends'' \<and> mem_user m = viewer) \<or>
                         (visibility m = ''private'' \<and> mem_user m = viewer)) (memories d)))"
    unfolding memories_feed_def get_visible_memories_def Let_def
    by (simp only: mset_filter mset_order_by_desc)
  then have m: "mset (memories_feed d viewer) =
           mset (filter (\<lambda>m. \<not> is_archived m \<and>
                   (visibility m = ''public'' \<or>
                    (visibility m = ''friends'' \<and>
                       (mem_user m = viewer \<or> are_friends d (mem_user m) viewer)) \<or>
                    (visibility m = ''private'' \<and> mem_user m = viewer))) (memories d))"
    unfolding eq .
  have o: "sorted_wrt (\<lambda>a b. creation_date a \<ge> creation_date b) (memories_feed d viewer)"
    unfolding memories_feed_def get_visible_memories_def Let_def
    by (intro sorted_wrt_filter sorted_order_by_desc)
  show ?thesis using s m o by blast
qed

theorem memories_feed_exact_witness:
  "list_all (\<lambda>m. mem_user m \<in> set (users d_mem)) (memories d_mem) \<and>
   map memory_id (memories_feed d_mem 2) = [3, 2, 1] \<and>
   sorted_wrt (\<lambda>a b. creation_date a \<ge> creation_date b) (memories_feed d_mem 2)"
proof -
  have fk: "\<forall>m\<in>set (memories d_mem). mem_user m \<in> set (users d_mem)" by code_simp
  have ids: "map memory_id (memories_feed d_mem 2) = [3, 2, 1]" by code_simp
  from memories_feed_exact[OF fk, of 2] fk ids show ?thesis by (simp add: list_all_iff)
qed

text \<open>
  C10. Where memory keys are unique: when the caller owns the memory with the given
  key, \<open>archive_memory\<close> replaces that row by the same row with \<open>is_archived\<close>
  negated and leaves every other row as it is, reports ``archived'' or ``restored''
  accordingly, and a second call brings the memory table back; when no memory with that
  key belongs to the caller, the store is unchanged and an error is reported.
\<close>

theorem archive_memory_toggle:
  assumes pk: "distinct (map memory_id (memories d))"
  shows "(get_object (\<lambda>r. memory_id r = mid \<and> mem_user r = u) (memories d) = Some m \<longrightarrow>
            memories (fst (archive_memory d u mid)) =
              map (\<lambda>r. if r = m then m\<lparr>is_archived := \<not> is_archived m\<rparr> else r) (memories d) \<and>
            snd (archive_memory d u mid) =
              [Success (if is_archived m then ''Memory restored'' else ''Memory archived'')] \<and>
            memories (fst (archive_memory (fst (archive_memory d u mid)) u mid)) = memories d) \<and>
         ((\<forall>r\<in>set (memories d). memory_id r = mid \<longrightarrow> mem_user r \<noteq> u) \<longrightarrow>
            archive_memory d u mid = (d, [Error ''Error archiving memory'']))"
proof -
  have fail: "archive_memory d u mid = (d, [Error ''Error archiving memory''])"
    if "\<forall>r\<in>set (memories d). memory_id r = mid \<longrightarrow> mem_user r \<noteq> u"
  proof -
    have "filter (\<lambda>r. memory_id r = mid \<and> mem_user r = u) (memories d) = []"
      using that by (auto simp: filter_empty_conv)
    then show ?thesis by (simp add: archive_memory_def get_object_def)
  qed
  have ok: "memories (fst (archive_memory d u mid)) =
              map (\<lambda>r. if r = m then m\<lparr>is_archived := \<not> is_archived m\<rparr> else r) (memories d) \<and>
            snd (archive_memory d u mid) =
              [Success (if is_archived m then ''Memory restored'' else ''Memory archived'')] \<and>
            memories (fst (archive_memory (fst (archive_memory d u mid)) u mid)) = memories d"
    if g: "get_object (\<lambda>r. memory_id r = mid \<and> mem_user r = u) (memories d) = Some m"
  proof -
    let ?P = "\<lambda>r. memory_id r = mid \<and> mem_user r = u"
    let ?m' = "m\<lparr>is_archived := \<not> is_archived m\<rparr>"
    let ?f = "\<lambda>r. if memory_id r = memory_id m then r\<lparr>is_archived := \<not> is_archived m\<rparr> else r"
    let ?d' = "fst (archive_memory d u mid)"
    have fm: "filter ?P (memories d) = [m]"
      using g by (simp add: get_object_def split: list.splits)
    then have "m \<in> set (filter ?P (memories d))" by simp
    then have m_in: "m \<in> set (memories d)" and m_id: "memory_id m = mid" and m_u: "mem_user m = u"
      by simp_all
    have mems': "memories ?d' = map ?f (memories d)"
      by (rule archive_memory_found(1)[OF g])
    have a: "memories ?d' =
        map (\<lambda>r. if r = m then m\<lparr>is_archived := \<not> is_archived m\<rparr> else r) (memories d)"
      unfolding mems' by (rule map_toggle_unique[OF pk m_in])
    have b: "snd (archive_memory d u mid) =
        [Success (if is_archived m then ''Memory restored'' else ''Memory archived'')]"
      by (rule archive_memory_found(2)[OF g])
    have "filter ?P (map ?f (memories d)) = map ?f (filter ?P (memories d))"
      by (rule filter_owner_toggle)
    then have fm': "filter ?P (memories ?d') = [?m']" by (simp add: mems' fm del: filter_map)
    then have g': "get_object ?P (memories ?d') = Some ?m'" by (simp add: get_object_def)
    have "memories (fst (archive_memory ?d' u mid)) =
        map (\<lambda>r. if memory_id r = memory_id m then r\<lparr>is_archived := is_archived m\<rparr> else r)
          (map ?f (memories d))"
      using archive_memory_found(1)[OF g'] by (simp only: mems') simp
    also have "\<dots> = map (\<lambda>r. if memory_id r = memory_id m then r\<lparr>is_archived := is_archived m\<rparr> else r)
          (memories d)"
      by (rule map_toggle_twice)
    also have "\<dots> = memories d"
    proof (rule map_idI)
      fix r assume r: "r \<in> set (memories d)"
      have "r = m" if "memory_id r = memory_id m"
        using pk r m_in that by (meson distinct_map inj_onD)
      then show "(if memory_id r = memory_id m then r\<lparr>is_archived := is_archived m\<rparr> else r) = r"
        by auto
    qed
    finally have c: "memories (fst (archive_memory ?d' u mid)) = memories d" .
    show ?thesis using a b c by blast
  qed
  show ?thesis using fail ok by blast
qed

theorem archive_memory_toggle_witness:
  "distinct (map memory_id (memories d_mem)) \<and>
   map is_archived (memories (fst (archive_memory d_mem 2 4))) =
     [False, False, False, False, False, False, True] \<and>
   memories (fst (archive_memory (fst (archive_memory d_mem 2 4)) 2 4)) = memories d_mem \<and>
   archive_memory d_mem 3 4 = (d_mem, [Error ''Error archiving memory''])"
proof -
  let ?m = "memories d_mem ! 3"
  have pk: "distinct (map memory_id (memories d_mem))" by code_simp
  have g: "get_object (\<lambda>r. memory_id r = 4 \<and> mem_user r = 2) (memories d_mem) = Some ?m"
    by code_simp
  have n: "\<forall>r\<in>set (memories d_mem). memory_id r = 4 \<longrightarrow> mem_user r \<noteq> 3" by code_simp
  have a: "map is_archived (memories (fst (archive_memory d_mem 2 4))) =
     [False, False, False, False, False, False, True]" by code_simp
  from archive_memory_toggle[OF pk, of 4 2 ?m] archive_memory_toggle[OF pk, of 4 3 ?m] pk g n a
  show ?thesis by blast
qed

end
